theory Spec2Isabelle
  imports Complex_Main "HOL-Library.Sublist" "HOL-Library.Multiset"
begin

section \<open>Numbers\<close>

text \<open>
  A JavaScript number that holds a weight or a probability is an IEEE 754 double: a finite
  value, which is a rational number, or an infinity, or NaN. The sign of a zero is not
  represented. Only a division by zero tells the two zeros apart, and the one divisor of
  the module, \<open>totalWeight\<close>, is a sum that starts from the literal \<open>0\<close>, which is never
  the negative zero.
\<close>

datatype number = Fin rat | PosInf | NegInf | NaN

text \<open>
  Rounding is computed on the numerator and the denominator of the exact result.
  \<open>ilog2 n\<close> is the position of the highest bit of \<open>n\<close>, for \<open>n > 0\<close>:
  \<open>2^(ilog2 n) \<le> n < 2^(ilog2 n + 1)\<close>.
\<close>

function top_bit :: "int \<Rightarrow> int \<Rightarrow> nat \<Rightarrow> nat" where
  "top_bit n p k = (if 0 < p \<and> 2 * p \<le> n then top_bit n (2 * p) (Suc k) else k)"
  by pat_completeness auto
termination
  by (relation "measure (\<lambda>(n, p, k). nat (n - p))") auto

declare top_bit.simps [simp del]

definition ilog2 :: "int \<Rightarrow> int" where
  "ilog2 n = int (top_bit n 1 0)"

text \<open>
  The exponent \<open>e\<close> with \<open>2^e \<le> n / d < 2^(e + 1)\<close>, for \<open>n, d > 0\<close>: it is
  \<open>k = ilog2 n - ilog2 d\<close> when \<open>2^k \<le> n / d\<close>, and \<open>k - 1\<close> otherwise.
\<close>

definition pick_exponent :: "int \<Rightarrow> int \<Rightarrow> int \<Rightarrow> int" where
  "pick_exponent n d k =
     (if (if 0 \<le> k then d * 2 ^ nat k \<le> n else d \<le> n * 2 ^ nat (- k)) then k else k - 1)"

definition fraction_exponent :: "int \<Rightarrow> int \<Rightarrow> int" where
  "fraction_exponent n d = pick_exponent n d (ilog2 n - ilog2 d)"

text \<open>
  The integer nearest to \<open>n / d\<close>, from the quotient \<open>q\<close> and the remainder \<open>r\<close> of the
  division; the even one of the two neighbours when \<open>n / d\<close> lies halfway.
\<close>

definition round_half_even :: "int \<Rightarrow> int \<Rightarrow> int \<Rightarrow> int" where
  "round_half_even q r d =
     (if 2 * r < d then q else if d < 2 * r then q + 1 else if even q then q else q + 1)"

definition nearest :: "int \<Rightarrow> int \<Rightarrow> int" where
  "nearest n d = round_half_even (n div d) (n mod d) d"

text \<open>The number \<open>q * 2^s\<close>.\<close>

definition scaled :: "int \<Rightarrow> int \<Rightarrow> rat" where
  "scaled q s = (if 0 \<le> s then of_int (q * 2 ^ nat s) else of_int q / of_int (2 ^ nat (- s)))"

text \<open>The result \<open>q * 2^s\<close> with its sign, or an infinity when it has reached \<open>2^1024\<close>.\<close>

definition finish :: "bool \<Rightarrow> int \<Rightarrow> int \<Rightarrow> number" where
  "finish positive q s =
     (if 1024 \<le> ilog2 q + s then (if positive then PosInf else NegInf)
      else Fin (if positive then scaled q s else - scaled q s))"

text \<open>\<open>n / d\<close> rounded to the nearest multiple of \<open>2^s\<close>.\<close>

definition round_at :: "bool \<Rightarrow> int \<Rightarrow> int \<Rightarrow> int \<Rightarrow> number" where
  "round_at positive n d s =
     finish positive
       (if s \<le> 0 then nearest (n * 2 ^ nat (- s)) d else nearest n (d * 2 ^ nat s)) s"

text \<open>
  Doubles have 53 significant bits, so a value with exponent \<open>e\<close> is rounded to a
  multiple of \<open>2^(e - 52)\<close>; below the exponent \<open>-1022\<close> the spacing of the subnormal
  numbers, \<open>2^(-1074)\<close>, stays.
\<close>

fun round_fraction :: "int \<times> int \<Rightarrow> number" where
  "round_fraction (n, d) =
     (if n = 0 then Fin 0
      else round_at (0 < n) \<bar>n\<bar> d (max (fraction_exponent \<bar>n\<bar> d) (- 1022) - 52))"

text \<open>
  The double that an operation returns for the exact result \<open>x\<close>: round to nearest, ties
  to even.
\<close>

definition round_double :: "rat \<Rightarrow> number" where
  "round_double x = round_fraction (quotient_of x)"

text \<open>The operators \<open>+\<close>, \<open>-\<close>, \<open>*\<close> and \<open>/\<close> on numbers.\<close>

fun js_add :: "number \<Rightarrow> number \<Rightarrow> number" where
  "js_add (Fin a) (Fin b) = round_double (a + b)"
| "js_add NaN _ = NaN"
| "js_add _ NaN = NaN"
| "js_add PosInf NegInf = NaN"
| "js_add NegInf PosInf = NaN"
| "js_add PosInf _ = PosInf"
| "js_add _ PosInf = PosInf"
| "js_add NegInf _ = NegInf"
| "js_add _ NegInf = NegInf"

fun js_neg :: "number \<Rightarrow> number" where
  "js_neg (Fin a) = Fin (- a)"
| "js_neg PosInf = NegInf"
| "js_neg NegInf = PosInf"
| "js_neg NaN = NaN"

definition js_sub :: "number \<Rightarrow> number \<Rightarrow> number" where
  "js_sub x y = js_add x (js_neg y)"

fun js_mul :: "number \<Rightarrow> number \<Rightarrow> number" where
  "js_mul (Fin a) (Fin b) = round_double (a * b)"
| "js_mul NaN _ = NaN"
| "js_mul _ NaN = NaN"
| "js_mul (Fin a) PosInf = (if a = 0 then NaN else if 0 < a then PosInf else NegInf)"
| "js_mul (Fin a) NegInf = (if a = 0 then NaN else if 0 < a then NegInf else PosInf)"
| "js_mul PosInf (Fin b) = (if b = 0 then NaN else if 0 < b then PosInf else NegInf)"
| "js_mul NegInf (Fin b) = (if b = 0 then NaN else if 0 < b then NegInf else PosInf)"
| "js_mul PosInf PosInf = PosInf"
| "js_mul PosInf NegInf = NegInf"
| "js_mul NegInf PosInf = NegInf"
| "js_mul NegInf NegInf = PosInf"

fun js_div :: "number \<Rightarrow> number \<Rightarrow> number" where
  "js_div (Fin a) (Fin b) =
     (if b \<noteq> 0 then round_double (a / b)
      else if 0 < a then PosInf
      else if a < 0 then NegInf
      else NaN)"
| "js_div NaN _ = NaN"
| "js_div _ NaN = NaN"
| "js_div (Fin a) _ = Fin 0"
| "js_div PosInf (Fin b) = (if 0 \<le> b then PosInf else NegInf)"
| "js_div NegInf (Fin b) = (if 0 \<le> b then NegInf else PosInf)"
| "js_div _ _ = NaN"

text \<open>\<open>random <= cumulative\<close> for a finite \<open>random\<close>.\<close>

fun js_le :: "rat \<Rightarrow> number \<Rightarrow> bool" where
  "js_le r (Fin c) = (r \<le> c)"
| "js_le r PosInf = True"
| "js_le r NegInf = False"
| "js_le r NaN = False"

text \<open>The literal \<open>0.2\<close>.\<close>

definition two_tenths :: number where
  "two_tenths = round_double (2 / 10)"

section \<open>Data model (the interfaces of the types module)\<close>

text \<open>
  JavaScript numbers that hold positions, counts and round numbers are modelled as \<open>int\<close>:
  they are integral and of a magnitude (array lengths and indices, below \<open>2^32\<close>) at
  which the arithmetic of doubles on integers is exact. The percentage of an odds entry is
  a double; a decimal literal such as \<open>18.8\<close> denotes \<open>round_double (188 / 10)\<close>.
\<close>

datatype LogoType = Url | Upload

record Team =
  id' :: string
  name :: string
  logoUrl :: string
  logoType :: LogoType

record WeightedOdds =
  position :: int
  percentage :: number

record DraftConfig =
  numberOfTeams :: int
  numberOfRounds :: int
  teams :: "Team list"
  weightedSystem :: "WeightedOdds list"
  pickDelaySeconds :: int
  currentYear :: int

record DraftPick =
  round' :: int
  pickNumber :: int
  teamId :: string
  originalPosition :: int
  movement :: int

text \<open>The object \<open>{min, max}\<close> returned by \<open>getValidPositionRange\<close>.\<close>

record PositionRange =
  min' :: int
  max' :: int

text \<open>
  Values that the code throws: \<open>new Error(message)\<close>, and the \<open>TypeError\<close> that the
  engine raises when a property is read from \<open>undefined\<close>.
\<close>

datatype error = Error string | TypeError

section \<open>Rendering numbers in template literals\<close>

definition digit_char :: "nat \<Rightarrow> char" where
  "digit_char d = ''0123456789'' ! d"

function show_nat :: "nat \<Rightarrow> string" where
  "show_nat n = (if n < 10 then [digit_char n] else show_nat (n div 10) @ [digit_char (n mod 10)])"
  by pat_completeness auto
termination
  by (relation "measure id") auto

declare show_nat.simps [simp del]

text \<open>Decimal rendering of an integral number (magnitude below \<open>10^21\<close>), as
  \<open>${n}\<close> produces it.\<close>

definition show_int :: "int \<Rightarrow> string" where
  "show_int i = (if i < 0 then CHR ''-'' # show_nat (nat (- i)) else show_nat (nat i))"

text \<open>\<open>Array.prototype.join\<close> on strings.\<close>

fun join :: "string \<Rightarrow> string list \<Rightarrow> string" where
  "join sep [] = []"
| "join sep [s] = s"
| "join sep (s # t # ss) = s @ sep @ join sep (t # ss)"

section \<open>The lottery module\<close>

definition MAX_MOVEMENT :: int where
  "MAX_MOVEMENT = 2"

definition getValidPositionRange :: "int \<Rightarrow> int \<Rightarrow> PositionRange" where
  "getValidPositionRange originalPos totalTeams =
     \<lparr> min' = max 1 (originalPos - MAX_MOVEMENT),
       max' = min totalTeams (originalPos + MAX_MOVEMENT) \<rparr>"

record ValidationResult =
  valid :: bool
  errors :: "string list"

text \<open>The \<open>forEach\<close> of \<open>validateDraftResults\<close>, pushing one message per offending pick.\<close>

fun validation_errors :: "DraftPick list \<Rightarrow> string list \<Rightarrow> string list" where
  "validation_errors [] errs = errs"
| "validation_errors (pick # rest) errs =
     (let mv = \<bar>movement pick\<bar> in
      if mv > MAX_MOVEMENT
      then validation_errors rest
             (errs @ [''Team at original position '' @ show_int (originalPosition pick)
                      @ '' moved '' @ show_int mv
                      @ '' spots (max allowed: '' @ show_int MAX_MOVEMENT @ '')''])
      else validation_errors rest errs)"

definition validateDraftResults :: "DraftPick list \<Rightarrow> ValidationResult" where
  "validateDraftResults picks =
     (let errs = validation_errors picks []
      in \<lparr> valid = (length errs = 0), errors = errs \<rparr>)"

subsection \<open>The random source\<close>

text \<open>
  The state of \<open>Math.random\<close>: the sequence of values it is going to return, doubles
  in the interval from 0 up to but not including 1, and how many of them have been consumed.
\<close>

record rng =
  draws :: "nat \<Rightarrow> rat"
  used :: nat

definition Math_random :: "rng \<Rightarrow> rat \<times> rng" where
  "Math_random g = (draws g (used g), g\<lparr>used := used g + 1\<rparr>)"

subsection \<open>Weighted selection\<close>

text \<open>The body of the \<open>map\<close> that computes \<open>probabilities\<close>: one \<open>(position, weight)\<close>.\<close>

definition candidate_weight :: "WeightedOdds \<Rightarrow> int \<Rightarrow> int \<Rightarrow> int \<times> number" where
  "candidate_weight teamOdds originalPos pos =
     (let mv = originalPos - pos;
          weight = percentage teamOdds
      in if mv > 0
         then (pos, js_mul weight (js_add (Fin 1) (js_mul (Fin (of_int mv)) two_tenths)))
         else if mv < 0
         then (pos, js_mul weight (js_sub (Fin 1) (js_mul (Fin (of_int \<bar>mv\<bar>)) two_tenths)))
         else (pos, weight))"

text \<open>The two statements that turn \<open>probabilities\<close> into \<open>normalizedProbs\<close>.\<close>

definition total_weight :: "(int \<times> number) list \<Rightarrow> number" where
  "total_weight probabilities = foldl (\<lambda>sum p. js_add sum (snd p)) (Fin 0) probabilities"

definition normalize :: "(int \<times> number) list \<Rightarrow> (int \<times> number) list" where
  "normalize probabilities =
     map (\<lambda>p. (fst p, js_div (snd p) (total_weight probabilities))) probabilities"

text \<open>The \<open>for (const prob of normalizedProbs)\<close> loop, with the fallback after it.\<close>

fun selection_walk :: "rat \<Rightarrow> number \<Rightarrow> (int \<times> number) list \<Rightarrow> int \<Rightarrow> int" where
  "selection_walk random cumulative [] fallback = fallback"
| "selection_walk random cumulative (prob # rest) fallback =
     (let cumulative' = js_add cumulative (snd prob)
      in if js_le random cumulative' then fst prob
         else selection_walk random cumulative' rest fallback)"

definition window_filter :: "PositionRange \<Rightarrow> int list \<Rightarrow> int list" where
  "window_filter validRange availablePositions =
     filter (\<lambda>pos. pos \<ge> min' validRange \<and> pos \<le> max' validRange) availablePositions"

definition weightedRandomSelection ::
    "int list \<Rightarrow> WeightedOdds list \<Rightarrow> int \<Rightarrow> rng \<Rightarrow> (error + int) \<times> rng" where
  "weightedRandomSelection availablePositions weightedSys originalPos g =
     (let validRange = getValidPositionRange originalPos (int (length weightedSys));
          validPositions = window_filter validRange availablePositions
      in if length validPositions = 0
         then (Inl (Error (''No valid positions available for team at original position ''
                           @ show_int originalPos)), g)
         else if length validPositions = 1
         then (Inr (validPositions ! 0), g)
         else
           (case find (\<lambda>odds. position odds = originalPos) weightedSys of
              None \<Rightarrow>
                (Inl (Error (''No weighted odds found for position '' @ show_int originalPos)), g)
            | Some teamOdds \<Rightarrow>
                (let probabilities = map (candidate_weight teamOdds originalPos) validPositions;
                     normalizedProbs = normalize probabilities;
                     (random, g') = Math_random g
                 in (Inr (selection_walk random (Fin 0) normalizedProbs (validPositions ! 0)), g'))))"

subsection \<open>Single-round assignment\<close>

text \<open>
  The objects \<open>{originalPosition, teamId}\<close> built from the initial order, as pairs.
  Reading \<open>config.teams[p - 1].id\<close> raises a \<open>TypeError\<close> when no team is stored there.
\<close>

type_synonym team_entry = "int \<times> string"

definition team_id_at :: "DraftConfig \<Rightarrow> int \<Rightarrow> error + string" where
  "team_id_at config originalPos =
     (if 1 \<le> originalPos \<and> originalPos \<le> int (length (teams config))
      then Inr (id' (teams config ! nat (originalPos - 1)))
      else Inl TypeError)"

fun build_teams :: "DraftConfig \<Rightarrow> int list \<Rightarrow> error + team_entry list" where
  "build_teams config [] = Inr []"
| "build_teams config (originalPos # rest) =
     (case team_id_at config originalPos of
        Inl e \<Rightarrow> Inl e
      | Inr tid \<Rightarrow>
          (case build_teams config rest of
             Inl e \<Rightarrow> Inl e
           | Inr entries \<Rightarrow> Inr ((originalPos, tid) # entries)))"

text \<open>
  \<open>[...teams].sort(() => Math.random() - 0.5)\<close>: the order that results from sorting with
  a comparator that is not consistent is left to the engine, so the shuffle is a parameter
  of the model. It receives the list and the random source and returns the reordered list
  and the random source after the comparator's draws.
\<close>

type_synonym shuffler = "team_entry list \<Rightarrow> rng \<Rightarrow> team_entry list \<times> rng"

definition all_positions :: "int \<Rightarrow> int list" where
  "all_positions n = map (\<lambda>i. int i + 1) [0..<nat n]"

text \<open>The loop \<open>for (const team of shuffledTeams)\<close>, with \<open>picks\<close> and
  \<open>assignedPositions\<close> as accumulators.\<close>

fun process_teams ::
    "DraftConfig \<Rightarrow> int \<Rightarrow> team_entry list \<Rightarrow> DraftPick list \<Rightarrow> int set \<Rightarrow> rng
       \<Rightarrow> (error + DraftPick list) \<times> rng" where
  "process_teams config roundNumber [] picks assignedPositions g = (Inr picks, g)"
| "process_teams config roundNumber (team # rest) picks assignedPositions g =
     (let availablePositions =
            filter (\<lambda>pos. pos \<notin> assignedPositions) (all_positions (numberOfTeams config));
          validRange = getValidPositionRange (fst team) (numberOfTeams config);
          validPositions = window_filter validRange availablePositions
      in if length validPositions = 0
         then (Inl (Error ''No valid positions''), g)
         else
           (case weightedRandomSelection availablePositions (weightedSystem config) (fst team) g of
              (Inl e, g') \<Rightarrow> (Inl e, g')
            | (Inr selectedPosition, g') \<Rightarrow>
                process_teams config roundNumber rest
                  (picks @ [\<lparr> round' = roundNumber,
                              pickNumber = selectedPosition,
                              teamId = snd team,
                              originalPosition = fst team,
                              movement = selectedPosition - fst team \<rparr>])
                  (insert selectedPosition assignedPositions) g'))"

text \<open>
  The body of the \<open>try\<close> block of one attempt: \<open>Inl e\<close> when it throws \<open>e\<close>,
  \<open>Inr (Some picks)\<close> when it returns \<open>picks\<close>, \<open>Inr None\<close> when it runs to its
  end without returning. \<open>Array.prototype.sort\<close> with the comparator
  \<open>a.pickNumber - b.pickNumber\<close> is the stable sort by \<open>pickNumber\<close>.
\<close>

definition attempt_body ::
    "shuffler \<Rightarrow> DraftConfig \<Rightarrow> int \<Rightarrow> int list \<Rightarrow> rng
       \<Rightarrow> (error + DraftPick list option) \<times> rng" where
  "attempt_body shuffle config roundNumber initialOrder g =
     (case build_teams config initialOrder of
        Inl e \<Rightarrow> (Inl e, g)
      | Inr teamList \<Rightarrow>
          (let (shuffledTeams, g1) = shuffle teamList g
           in case process_teams config roundNumber shuffledTeams [] {} g1 of
                (Inl e, g2) \<Rightarrow> (Inl e, g2)
              | (Inr picks, g2) \<Rightarrow>
                  (let allValid = list_all (\<lambda>pick. \<bar>movement pick\<bar> \<le> MAX_MOVEMENT) picks
                   in if allValid then (Inr (Some (sort_key pickNumber picks)), g2)
                      else (Inr None, g2))))"

definition MAX_ATTEMPTS :: nat where
  "MAX_ATTEMPTS = 1000"

text \<open>The statement after the loop: the assignment without movement.\<close>

fun fallback_picks :: "DraftConfig \<Rightarrow> int \<Rightarrow> int list \<Rightarrow> error + DraftPick list" where
  "fallback_picks config roundNumber [] = Inr []"
| "fallback_picks config roundNumber (originalPos # rest) =
     (case team_id_at config originalPos of
        Inl e \<Rightarrow> Inl e
      | Inr tid \<Rightarrow>
          (case fallback_picks config roundNumber rest of
             Inl e \<Rightarrow> Inl e
           | Inr picks \<Rightarrow>
               Inr (\<lparr> round' = roundNumber,
                       pickNumber = originalPos,
                       teamId = tid,
                       originalPosition = originalPos,
                       movement = 0 \<rparr> # picks)))"

definition no_movement_fallback :: "DraftConfig \<Rightarrow> int \<Rightarrow> int list \<Rightarrow> error + DraftPick list" where
  "no_movement_fallback config roundNumber initialOrder =
     (case fallback_picks config roundNumber initialOrder of
        Inl e \<Rightarrow> Inl e
      | Inr picks \<Rightarrow> Inr (sort_key pickNumber picks))"

text \<open>The \<open>while (attempt < MAX_ATTEMPTS)\<close> loop; a caught exception and a failed
  re-check both lead to the next attempt.\<close>

function attempts_loop ::
    "shuffler \<Rightarrow> DraftConfig \<Rightarrow> int \<Rightarrow> int list \<Rightarrow> nat \<Rightarrow> rng
       \<Rightarrow> (error + DraftPick list) \<times> rng" where
  "attempts_loop shuffle config roundNumber initialOrder attempt g =
     (if attempt < MAX_ATTEMPTS
      then (case attempt_body shuffle config roundNumber initialOrder g of
              (Inr (Some picks), g') \<Rightarrow> (Inr picks, g')
            | (Inr None, g') \<Rightarrow>
                attempts_loop shuffle config roundNumber initialOrder (attempt + 1) g'
            | (Inl e, g') \<Rightarrow>
                attempts_loop shuffle config roundNumber initialOrder (attempt + 1) g')
      else (no_movement_fallback config roundNumber initialOrder, g))"
  by pat_completeness auto
termination
  by (relation "measure (\<lambda>(shuffle, config, roundNumber, initialOrder, attempt, g).
                           MAX_ATTEMPTS - attempt)") auto

declare attempts_loop.simps [simp del]

definition runLotteryRound ::
    "shuffler \<Rightarrow> DraftConfig \<Rightarrow> int \<Rightarrow> int list \<Rightarrow> rng \<Rightarrow> (error + DraftPick list) \<times> rng" where
  "runLotteryRound shuffle config roundNumber initialOrder g =
     attempts_loop shuffle config roundNumber initialOrder 0 g"

subsection \<open>Multi-round orchestration\<close>

text \<open>The loop \<open>for (let round = 1; round <= config.numberOfRounds; round++)\<close>.\<close>

function rounds_loop ::
    "shuffler \<Rightarrow> DraftConfig \<Rightarrow> int list \<Rightarrow> int \<Rightarrow> DraftPick list \<Rightarrow> rng
       \<Rightarrow> (error + DraftPick list) \<times> rng" where
  "rounds_loop shuffle config initialOrder rnd allPicks g =
     (if rnd \<le> numberOfRounds config
      then (case runLotteryRound shuffle config rnd initialOrder g of
              (Inl e, g') \<Rightarrow> (Inl e, g')
            | (Inr roundPicks, g') \<Rightarrow>
                (let validation = validateDraftResults roundPicks
                 in if \<not> valid validation
                    then (Inl (Error (''Invalid lottery results for round '' @ show_int rnd
                                      @ '': '' @ join '', '' (errors validation))), g')
                    else rounds_loop shuffle config initialOrder (rnd + 1)
                           (allPicks @ roundPicks) g'))
      else (Inr allPicks, g))"
  by pat_completeness auto
termination
  by (relation "measure (\<lambda>(shuffle, config, initialOrder, rnd, allPicks, g).
                           nat (numberOfRounds config + 1 - rnd))") auto

declare rounds_loop.simps [simp del]

definition length_mismatch_message :: "nat \<Rightarrow> int \<Rightarrow> string" where
  "length_mismatch_message len n =
     ''Initial order length ('' @ show_nat len @ '') must match number of teams (''
       @ show_int n @ '')''"

definition runCompleteLottery ::
    "shuffler \<Rightarrow> DraftConfig \<Rightarrow> int list \<Rightarrow> rng \<Rightarrow> (error + DraftPick list) \<times> rng" where
  "runCompleteLottery shuffle config initialOrder g =
     (if int (length initialOrder) \<noteq> numberOfTeams config
      then (Inl (Error (length_mismatch_message (length initialOrder) (numberOfTeams config))), g)
      else rounds_loop shuffle config initialOrder 1 [] g)"

section \<open>Notions used in the statements\<close>

subsection \<open>Well-formed inputs\<close>

text \<open>Every entry of the initial order is the position of a stored team.\<close>

definition teams_exist :: "DraftConfig \<Rightarrow> int list \<Rightarrow> bool" where
  "teams_exist config initialOrder =
     list_all (\<lambda>p. 1 \<le> p \<and> p \<le> int (length (teams config))) initialOrder"

text \<open>The pick that the statement after the loop builds for one entry of the initial order.\<close>

definition identity_pick :: "DraftConfig \<Rightarrow> int \<Rightarrow> int \<Rightarrow> DraftPick" where
  "identity_pick config roundNumber p =
     \<lparr> round' = roundNumber, pickNumber = p,
       teamId = id' (teams config ! nat (p - 1)),
       originalPosition = p, movement = 0 \<rparr>"

text \<open>\<open>xs\<close> holds each of the positions \<open>1..n\<close> exactly once.\<close>

definition is_permutation :: "int list \<Rightarrow> int \<Rightarrow> bool" where
  "is_permutation xs n = (sort xs = [1..n])"

text \<open>
  A well-formed configuration: at least one team, a stored team for each position
  \<open>1..N\<close>, and exactly one odds entry per position \<open>1..N\<close>.
\<close>

definition well_formed :: "DraftConfig \<Rightarrow> bool" where
  "well_formed config =
     (1 \<le> numberOfTeams config
      \<and> numberOfTeams config \<le> int (length (teams config))
      \<and> is_permutation (map position (weightedSystem config)) (numberOfTeams config))"

subsection \<open>Failed attempts\<close>

text \<open>
  One attempt fails when its \<open>try\<close> block does not return: it throws (and the
  exception is caught) or the re-check of the movements does not hold.
\<close>

definition attempt_failed :: "error + DraftPick list option \<Rightarrow> bool" where
  "attempt_failed outcome = (case outcome of Inr (Some picks) \<Rightarrow> False | _ \<Rightarrow> True)"

text \<open>The random source as it reaches attempt number \<open>k\<close> (counted from 0) when the
  attempts before it have not returned.\<close>

definition rng_after :: "shuffler \<Rightarrow> DraftConfig \<Rightarrow> int \<Rightarrow> int list \<Rightarrow> nat \<Rightarrow> rng \<Rightarrow> rng" where
  "rng_after shuffle config roundNumber initialOrder k g =
     ((\<lambda>h. snd (attempt_body shuffle config roundNumber initialOrder h)) ^^ k) g"

definition all_attempts_fail :: "shuffler \<Rightarrow> DraftConfig \<Rightarrow> int \<Rightarrow> int list \<Rightarrow> rng \<Rightarrow> bool" where
  "all_attempts_fail shuffle config roundNumber initialOrder g =
     list_all (\<lambda>k. attempt_failed (fst (attempt_body shuffle config roundNumber initialOrder
                                          (rng_after shuffle config roundNumber initialOrder k g))))
       [0..<MAX_ATTEMPTS]"

subsection \<open>The weighted selection in the words of the specification\<close>

text \<open>
  The raw weight of candidate \<open>c\<close> for a team at original position \<open>p\<close> with base
  percentage \<open>base\<close>: increased by the factor \<open>1 + 0.2 * (p - c)\<close> when \<open>c\<close> is "up"
  from \<open>p\<close>, decreased by the factor \<open>1 - 0.2 * (c - p)\<close> when it is "down".
\<close>

definition spec_weight :: "number \<Rightarrow> int \<Rightarrow> int \<Rightarrow> number" where
  "spec_weight base p c =
     (if c < p then js_mul base (js_add (Fin 1) (js_mul two_tenths (Fin (of_int (p - c)))))
      else if p < c then js_mul base (js_sub (Fin 1) (js_mul two_tenths (Fin (of_int (c - p)))))
      else base)"

text \<open>The sum of the weights of the candidates, added from left to right starting from 0.\<close>

definition spec_total :: "number \<Rightarrow> int \<Rightarrow> int list \<Rightarrow> number" where
  "spec_total base p candidates = foldl js_add (Fin 0) (map (spec_weight base p) candidates)"

text \<open>The weights of the candidates, each divided by their sum.\<close>

definition spec_distribution :: "number \<Rightarrow> int \<Rightarrow> int list \<Rightarrow> number list" where
  "spec_distribution base p candidates =
     map (\<lambda>c. js_div (spec_weight base p c) (spec_total base p candidates)) candidates"

text \<open>
  The probability mass accumulated over the first \<open>i + 1\<close> entries of a distribution,
  added from left to right starting from 0.
\<close>

definition cumulative :: "number list \<Rightarrow> nat \<Rightarrow> number" where
  "cumulative distribution i = foldl js_add (Fin 0) (take (Suc i) distribution)"

text \<open>
  The first candidate, in the order of the list, whose cumulative probability mass is at
  least the draw; the first candidate of the list when there is none.
\<close>

definition spec_select :: "rat \<Rightarrow> number list \<Rightarrow> int list \<Rightarrow> int" where
  "spec_select draw distribution candidates =
     (case find (\<lambda>i. js_le draw (cumulative distribution i)) [0..<length candidates] of
        Some i \<Rightarrow> candidates ! i
      | None \<Rightarrow> candidates ! 0)"

subsection \<open>Concrete inputs\<close>

text \<open>
  Concrete inputs: the three-team configuration of the unit tests, a random source
  whose draws are all \<open>1/2\<close>, and a shuffle that leaves the order as it is after
  \<open>length - 1\<close> comparisons (what a stable insertion sort does when every comparator
  result is \<open>0\<close>, as it is under these draws).
\<close>

definition example_team :: "string \<Rightarrow> Team" where
  "example_team s = \<lparr> id' = s, name = ''Team '' @ s, logoUrl = [], logoType = Url \<rparr>"

definition example_config :: DraftConfig where
  "example_config =
     \<lparr> numberOfTeams = 3, numberOfRounds = 2,
       teams = [example_team ''1'', example_team ''2'', example_team ''3''],
       weightedSystem = [\<lparr> position = 3, percentage = Fin 50 \<rparr>,
                         \<lparr> position = 2, percentage = Fin 30 \<rparr>,
                         \<lparr> position = 1, percentage = Fin 20 \<rparr>],
       pickDelaySeconds = 1, currentYear = 2024 \<rparr>"

definition example_rng :: rng where
  "example_rng = \<lparr> draws = (\<lambda>n. 1 / 2), used = 0 \<rparr>"

definition stable_on_ties :: shuffler where
  "stable_on_ties ts g = (ts, g\<lparr> used := used g + (length ts - 1) \<rparr>)"

definition example_round :: "int \<Rightarrow> DraftPick list" where
  "example_round r =
     [\<lparr> round' = r, pickNumber = 1, teamId = ''2'', originalPosition = 2, movement = - 1 \<rparr>,
      \<lparr> round' = r, pickNumber = 2, teamId = ''1'', originalPosition = 1, movement = 1 \<rparr>,
      \<lparr> round' = r, pickNumber = 3, teamId = ''3'', originalPosition = 3, movement = 0 \<rparr>]"

text \<open>The three-team configuration with an empty odds table.\<close>

definition no_odds_config :: DraftConfig where
  "no_odds_config = example_config\<lparr> weightedSystem := [] \<rparr>"

text \<open>The default ten-entry odds table of the configuration.\<close>

definition default_odds :: "WeightedOdds list" where
  "default_odds =
     [\<lparr> position = 10, percentage = round_double 25 \<rparr>,
      \<lparr> position = 9, percentage = round_double (188 / 10) \<rparr>,
      \<lparr> position = 8, percentage = round_double (141 / 10) \<rparr>,
      \<lparr> position = 7, percentage = round_double (105 / 10) \<rparr>,
      \<lparr> position = 6, percentage = round_double (79 / 10) \<rparr>,
      \<lparr> position = 5, percentage = round_double (62 / 10) \<rparr>,
      \<lparr> position = 4, percentage = round_double (62 / 10) \<rparr>,
      \<lparr> position = 3, percentage = round_double (47 / 10) \<rparr>,
      \<lparr> position = 2, percentage = round_double (35 / 10) \<rparr>,
      \<lparr> position = 1, percentage = round_double (31 / 10) \<rparr>]"

text \<open>The same table without its entry for position 8, as in the unit tests.\<close>

definition odds_without_8 :: "WeightedOdds list" where
  "odds_without_8 = filter (\<lambda>odds. position odds \<noteq> 8) default_odds"


text \<open>A random source whose draws are all \<open>1 - 2^(-53)\<close>, the largest double below 1.\<close>

definition almost_one_rng :: rng where
  "almost_one_rng = \<lparr> draws = (\<lambda>n. 9007199254740991 / 9007199254740992), used = 0 \<rparr>"

section \<open>Rounding\<close>

text \<open>
  The literals \<open>0.2\<close> and \<open>18.8\<close>, the sum \<open>0.1 + 0.2\<close>, the quotient \<open>1 / 3\<close>, and
  two ties: \<open>1 + 2^(-53)\<close> lies halfway between 1 and \<open>1 + 2^(-52)\<close> and goes to 1,
  \<open>1 + 3 * 2^(-53)\<close> lies halfway between \<open>1 + 2^(-52)\<close> and \<open>1 + 2^(-51)\<close> and goes to
  the latter.
\<close>

lemma round_double_samples:
  "round_double (2 / 10) = Fin (3602879701896397 / 18014398509481984)"
  "round_double (188 / 10) = Fin (5291729562160333 / 281474976710656)"
  "js_add (round_double (1 / 10)) (round_double (2 / 10))
     = Fin (1351079888211149 / 4503599627370496)"
  "js_div (Fin 1) (Fin 3) = Fin (6004799503160661 / 18014398509481984)"
  "round_double (9007199254740993 / 9007199254740992) = Fin 1"
  "round_double (9007199254740995 / 9007199254740992)
     = Fin (2251799813685249 / 2251799813685248)"
  by code_simp+

section \<open>Valid-range computation\<close>

lemma range_membership:
  "(min' (getValidPositionRange p n) \<le> c \<and> c \<le> max' (getValidPositionRange p n))
     = (1 \<le> c \<and> c \<le> n \<and> \<bar>c - p\<bar> \<le> 2)"
  by (auto simp: getValidPositionRange_def MAX_MOVEMENT_def)

text \<open>
  Claim C8. For every original position \<open>p\<close> and team count \<open>N\<close>,
  \<open>getValidPositionRange p N\<close> is the closed interval with \<open>min = max 1 (p - 2)\<close> and
  \<open>max = min N (p + 2)\<close>; for \<open>N = 10\<close> the positions 1, 5 and 10 give \<open>[1,3]\<close>,
  \<open>[3,7]\<close> and \<open>[8,10]\<close>. The function is a total, pure function of its two arguments.
\<close>

theorem C8_valid_range:
  "getValidPositionRange p N = \<lparr> min' = max 1 (p - 2), max' = min N (p + 2) \<rparr>
   \<and> getValidPositionRange 1 10 = \<lparr> min' = 1, max' = 3 \<rparr>
   \<and> getValidPositionRange 5 10 = \<lparr> min' = 3, max' = 7 \<rparr>
   \<and> getValidPositionRange 10 10 = \<lparr> min' = 8, max' = 10 \<rparr>"
  by (simp add: getValidPositionRange_def MAX_MOVEMENT_def)

section \<open>Outcomes of the weighted selection\<close>

lemma selection_walk_mem:
  "selection_walk r c ps fb \<in> insert fb (fst ` set ps)"
  by (induction ps arbitrary: c) (auto simp: Let_def)

lemma window_filter_set:
  "set (window_filter (getValidPositionRange p n) av)
     = {c \<in> set av. 1 \<le> c \<and> c \<le> n \<and> \<bar>c - p\<bar> \<le> 2}"
  using range_membership [of p n] by (auto simp: window_filter_def)

lemma wrs_empty:
  assumes "window_filter (getValidPositionRange p (int (length ws))) av = []"
  shows "weightedRandomSelection av ws p g =
           (Inl (Error (''No valid positions available for team at original position ''
                        @ show_int p)), g)"
  using assms by (simp add: weightedRandomSelection_def Let_def)

lemma wrs_single:
  assumes "window_filter (getValidPositionRange p (int (length ws))) av = [x]"
  shows "weightedRandomSelection av ws p g = (Inr x, g)"
  using assms by (simp add: weightedRandomSelection_def Let_def)

lemma wrs_no_odds:
  assumes "2 \<le> length (window_filter (getValidPositionRange p (int (length ws))) av)"
    and "find (\<lambda>odds. position odds = p) ws = None"
  shows "weightedRandomSelection av ws p g =
           (Inl (Error (''No weighted odds found for position '' @ show_int p)), g)"
proof -
  from assms(1) have "length (window_filter (getValidPositionRange p (int (length ws))) av) \<noteq> 0"
    "length (window_filter (getValidPositionRange p (int (length ws))) av) \<noteq> 1" by auto
  with assms(2) show ?thesis by (simp add: weightedRandomSelection_def Let_def)
qed

lemma wrs_weighted:
  assumes "2 \<le> length (window_filter (getValidPositionRange p (int (length ws))) av)"
    and "find (\<lambda>odds. position odds = p) ws = Some teamOdds"
  shows "weightedRandomSelection av ws p g =
           (Inr (selection_walk (draws g (used g)) (Fin 0)
                   (normalize (map (candidate_weight teamOdds p) (window_filter (getValidPositionRange p (int (length ws))) av)))
                   (window_filter (getValidPositionRange p (int (length ws))) av ! 0)),
            g\<lparr>used := used g + 1\<rparr>)"
proof -
  from assms(1) have "length (window_filter (getValidPositionRange p (int (length ws))) av) \<noteq> 0"
    "length (window_filter (getValidPositionRange p (int (length ws))) av) \<noteq> 1" by auto
  with assms(2) show ?thesis
    by (simp add: weightedRandomSelection_def Let_def Math_random_def)
qed

lemma fst_candidate_weight: "fst (candidate_weight teamOdds p x) = x"
  by (simp add: candidate_weight_def Let_def)

lemma fst_normalized: "map fst (normalize (map (candidate_weight teamOdds p) vp)) = vp"
  by (simp add: normalize_def Let_def comp_def fst_candidate_weight)

lemma length_cases:
  obtains "xs = []" | x where "xs = [x]" | "2 \<le> length xs"
  by (cases xs; cases "tl xs") auto

lemma wrs_result_mem:
  assumes "weightedRandomSelection av ws p g = (Inr c, g')"
  shows "c \<in> set (window_filter (getValidPositionRange p (int (length ws))) av)"
proof -
  let ?vp = "window_filter (getValidPositionRange p (int (length ws))) av"
  show ?thesis
  proof (cases ?vp rule: length_cases)
    case 1
    with assms show ?thesis by (simp add: wrs_empty)
  next
    case (2 x)
    with assms show ?thesis by (simp add: wrs_single)
  next
    case 3
    then have fb: "?vp ! 0 \<in> set ?vp" by (cases ?vp) auto
    show ?thesis
    proof (cases "find (\<lambda>odds. position odds = p) ws")
      case None
      with assms 3 show ?thesis by (simp add: wrs_no_odds)
    next
      case (Some odds)
      have "c = selection_walk (draws g (used g)) (Fin 0) (normalize (map (candidate_weight odds p) ?vp)) (?vp ! 0)"
        using assms 3 Some by (simp add: wrs_weighted)
      moreover have "fst ` set (normalize (map (candidate_weight odds p) ?vp)) = set ?vp"
        using fst_normalized [of odds p ?vp] by (metis set_map)
      ultimately show ?thesis
        using selection_walk_mem [of "draws g (used g)" "Fin 0" "normalize (map (candidate_weight odds p) ?vp)" "?vp ! 0"] fb
        by auto
    qed
  qed
qed

lemma wrs_throws_iff:
  "(\<exists>e. fst (weightedRandomSelection av ws p g) = Inl e) \<longleftrightarrow>
     (window_filter (getValidPositionRange p (int (length ws))) av = []
      \<or> (2 \<le> length (window_filter (getValidPositionRange p (int (length ws))) av)
         \<and> p \<notin> position ` set ws))"
proof -
  let ?vp = "window_filter (getValidPositionRange p (int (length ws))) av"
  have none: "(find (\<lambda>odds. position odds = p) ws = None) = (p \<notin> position ` set ws)"
    by (auto simp: find_None_iff)
  show ?thesis
  proof (cases ?vp rule: length_cases)
    case 1
    then show ?thesis by (simp add: wrs_empty)
  next
    case (2 x)
    then show ?thesis by (simp add: wrs_single)
  next
    case 3
    then have ne: "?vp \<noteq> []" by auto
    show ?thesis
    proof (cases "find (\<lambda>odds. position odds = p) ws")
      case None
      with 3 none show ?thesis by (simp add: wrs_no_odds)
    next
      case (Some odds)
      with none have "p \<in> position ` set ws" by auto
      with 3 Some ne show ?thesis by (simp add: wrs_weighted)
    qed
  qed
qed


section \<open>Properties of a single round\<close>

subsection \<open>One attempt\<close>

lemma set_all_positions: "set (all_positions n) = {1..n}"
proof -
  have "(\<lambda>i. int i + 1) ` {0..<nat n} = {1..n}"
  proof (intro set_eqI iffI)
    fix x assume "x \<in> (\<lambda>i. int i + 1) ` {0..<nat n}"
    then show "x \<in> {1..n}" by auto
  next
    fix x assume "x \<in> {1..n}"
    then have "x = int (nat (x - 1)) + 1" "nat (x - 1) \<in> {0..<nat n}" by auto
    then show "x \<in> (\<lambda>i. int i + 1) ` {0..<nat n}" by (rule image_eqI)
  qed
  then show ?thesis by (simp add: all_positions_def)
qed

lemma process_teams_result:
  assumes "process_teams cfg r ts picks assigned g = (Inr out, g')"
  shows "\<exists>new. out = picks @ new
           \<and> map originalPosition new = map fst ts
           \<and> map teamId new = map snd ts
           \<and> distinct (map pickNumber new)
           \<and> set (map pickNumber new) \<inter> assigned = {}
           \<and> set (map pickNumber new) \<subseteq> {1..numberOfTeams cfg}
           \<and> (\<forall>p\<in>set new. round' p = r \<and> movement p = pickNumber p - originalPosition p)"
  using assms
proof (induction ts arbitrary: picks assigned g)
  case Nil
  then show ?case by simp
next
  case (Cons team rest)
  let ?av = "filter (\<lambda>pos. pos \<notin> assigned) (all_positions (numberOfTeams cfg))"
  obtain res g1 where sel: "weightedRandomSelection ?av (weightedSystem cfg) (fst team) g = (res, g1)"
    by (cases "weightedRandomSelection ?av (weightedSystem cfg) (fst team) g")
  from Cons.prems sel obtain c where c: "res = Inr c"
    by (cases res) (auto simp: Let_def split: if_splits)
  let ?pk = "\<lparr> round' = r, pickNumber = c, teamId = snd team,
                originalPosition = fst team, movement = c - fst team \<rparr>"
  from Cons.prems sel c
  have rec: "process_teams cfg r rest (picks @ [?pk]) (insert c assigned) g1 = (Inr out, g')"
    by (auto simp: Let_def split: if_splits)
  from sel c have "c \<in> set (window_filter (getValidPositionRange (fst team)
                                  (int (length (weightedSystem cfg)))) ?av)"
    by (simp add: wrs_result_mem)
  then have cav: "c \<in> set ?av" by (simp add: window_filter_def)
  then have c1: "c \<notin> assigned" and c2: "c \<in> {1..numberOfTeams cfg}"
    by (simp_all add: set_all_positions)
  from Cons.IH [OF rec] obtain new where new:
    "out = (picks @ [?pk]) @ new"
    "map originalPosition new = map fst rest"
    "map teamId new = map snd rest"
    "distinct (map pickNumber new)"
    "set (map pickNumber new) \<inter> insert c assigned = {}"
    "set (map pickNumber new) \<subseteq> {1..numberOfTeams cfg}"
    "\<forall>p\<in>set new. round' p = r \<and> movement p = pickNumber p - originalPosition p"
    by blast
  show ?case
  proof (intro exI [of _ "?pk # new"] conjI)
    show "out = picks @ ?pk # new" using new(1) by simp
    show "map originalPosition (?pk # new) = map fst (team # rest)" using new(2) by simp
    show "map teamId (?pk # new) = map snd (team # rest)" using new(3) by simp
    show "distinct (map pickNumber (?pk # new))" using new(4,5) by auto
    show "set (map pickNumber (?pk # new)) \<inter> assigned = {}" using new(5) c1 by auto
    show "set (map pickNumber (?pk # new)) \<subseteq> {1..numberOfTeams cfg}" using new(6) c2 by auto
    show "\<forall>p\<in>set (?pk # new). round' p = r \<and> movement p = pickNumber p - originalPosition p"
      using new(7) by simp
  qed
qed

lemma build_teams_eq:
  "build_teams cfg io =
     (if teams_exist cfg io then Inr (map (\<lambda>p. (p, id' (teams cfg ! nat (p - 1)))) io)
      else Inl TypeError)"
  by (induction io) (auto simp: teams_exist_def team_id_at_def)

lemma fallback_picks_eq:
  "fallback_picks cfg r io =
     (if teams_exist cfg io then Inr (map (identity_pick cfg r) io) else Inl TypeError)"
  by (induction io) (auto simp: teams_exist_def team_id_at_def identity_pick_def)

lemma no_movement_fallback_eq:
  "no_movement_fallback cfg r io =
     (if teams_exist cfg io then Inr (sort_key pickNumber (map (identity_pick cfg r) io))
      else Inl TypeError)"
  by (simp add: no_movement_fallback_def fallback_picks_eq)

lemma attempt_body_success:
  assumes "attempt_body sh cfg r io g = (Inr (Some picks), g')"
  shows "\<exists>entries out. build_teams cfg io = Inr entries
           \<and> picks = sort_key pickNumber out
           \<and> map originalPosition out = map fst (fst (sh entries g))
           \<and> distinct (map pickNumber out)
           \<and> set (map pickNumber out) \<subseteq> {1..numberOfTeams cfg}
           \<and> (\<forall>p\<in>set out. round' p = r \<and> movement p = pickNumber p - originalPosition p
                               \<and> \<bar>movement p\<bar> \<le> 2)"
proof -
  from assms obtain entries where b: "build_teams cfg io = Inr entries"
    by (cases "build_teams cfg io") (auto simp: attempt_body_def)
  obtain sts g1 where s: "sh entries g = (sts, g1)" by (cases "sh entries g")
  obtain res g2 where p: "process_teams cfg r sts [] {} g1 = (res, g2)"
    by (cases "process_teams cfg r sts [] {} g1")
  from assms b s p obtain out where o: "res = Inr out"
    by (cases res) (auto simp: attempt_body_def)
  from assms b s p o have v: "list_all (\<lambda>pick. \<bar>movement pick\<bar> \<le> MAX_MOVEMENT) out"
    and pk: "picks = sort_key pickNumber out"
    by (auto simp: attempt_body_def Let_def split: if_splits)
  from process_teams_result [OF p [unfolded o]] obtain new where new:
    "out = [] @ new"
    "map originalPosition new = map fst sts"
    "distinct (map pickNumber new)"
    "set (map pickNumber new) \<subseteq> {1..numberOfTeams cfg}"
    "\<forall>p\<in>set new. round' p = r \<and> movement p = pickNumber p - originalPosition p"
    by blast
  from v have "\<forall>p\<in>set out. \<bar>movement p\<bar> \<le> 2"
    by (simp add: list_all_iff MAX_MOVEMENT_def)
  with new b pk s show ?thesis by auto
qed

subsection \<open>The attempt loop and the fallback\<close>

lemma attempts_loop_cases:
  assumes "attempts_loop sh cfg r io attempt g = (res, g')"
  shows "(\<exists>g1 picks. attempt_body sh cfg r io g1 = (Inr (Some picks), g') \<and> res = Inr picks)
         \<or> res = no_movement_fallback cfg r io"
  using assms
proof (induction sh cfg r io attempt g rule: attempts_loop.induct)
  case (1 sh cfg r io attempt g)
  show ?case
  proof (cases "attempt < MAX_ATTEMPTS")
    case False
    with "1.prems" show ?thesis by (simp add: attempts_loop.simps)
  next
    case True
    obtain x g1 where ab: "attempt_body sh cfg r io g = (x, g1)"
      by (cases "attempt_body sh cfg r io g")
    show ?thesis
    proof (cases x)
      case (Inl e)
      with True ab "1.prems" have "attempts_loop sh cfg r io (attempt + 1) g1 = (res, g')"
        by (simp add: attempts_loop.simps [of sh cfg r io attempt])
      with "1.IH"(1) [OF True ab [symmetric] Inl] show ?thesis by simp
    next
      case (Inr y)
      show ?thesis
      proof (cases y)
        case None
        with Inr True ab "1.prems" have "attempts_loop sh cfg r io (attempt + 1) g1 = (res, g')"
          by (simp add: attempts_loop.simps [of sh cfg r io attempt])
        with "1.IH"(2) [OF True ab [symmetric] Inr None] show ?thesis by simp
      next
        case (Some picks)
        with Inr True ab "1.prems" have "res = Inr picks" "g' = g1"
          by (simp_all add: attempts_loop.simps [of sh cfg r io attempt])
        with ab Inr Some show ?thesis by blast
      qed
    qed
  qed
qed

lemma map_sort_key: "map f (sort_key f xs) = sort (map f xs)"
proof -
  have "mset (map f (sort_key f xs)) = mset (map f xs)" by simp
  moreover have "sorted (map f (sort_key f xs))" by (rule sorted_sort_key)
  ultimately show ?thesis by (rule properties_for_sort [symmetric])
qed

lemma is_permutation_props:
  assumes "is_permutation xs n"
  shows "set xs = {1..n}" and "length xs = nat n" and "distinct xs"
proof -
  from assms have s: "sort xs = [1..n]" by (simp add: is_permutation_def)
  have "set xs = set (sort xs)" by simp
  with s show "set xs = {1..n}" by simp
  have "length xs = length (sort xs)" by simp
  with s show "length xs = nat n" by simp
  have "distinct xs = distinct (sort xs)" by simp
  with s show "distinct xs" by simp
qed

lemma teams_exist_wf:
  assumes "numberOfTeams cfg \<le> int (length (teams cfg))" and "is_permutation io (numberOfTeams cfg)"
  shows "teams_exist cfg io"
  using assms is_permutation_props(1) [OF assms(2)]
  by (auto simp: teams_exist_def list_all_iff)

lemma identity_pick_fields:
  "pickNumber (identity_pick cfg r p) = p" "originalPosition (identity_pick cfg r p) = p"
  "movement (identity_pick cfg r p) = 0" "round' (identity_pick cfg r p) = r"
  by (simp_all add: identity_pick_def)

lemma runLotteryRound_cases:
  assumes "runLotteryRound sh cfg r io g = (res, g')"
  shows "(\<exists>g1 picks. attempt_body sh cfg r io g1 = (Inr (Some picks), g') \<and> res = Inr picks)
         \<or> res = no_movement_fallback cfg r io"
  using assms attempts_loop_cases unfolding runLotteryRound_def by blast

lemma runLotteryRound_picks:
  assumes "runLotteryRound sh cfg r io g = (Inr picks, g')"
  shows "\<forall>p\<in>set picks. round' p = r \<and> movement p = pickNumber p - originalPosition p
                          \<and> \<bar>movement p\<bar> \<le> 2"
proof -
  from runLotteryRound_cases [OF assms]
  consider g1 where "attempt_body sh cfg r io g1 = (Inr (Some picks), g')"
    | "Inr picks = no_movement_fallback cfg r io" by auto
  then show ?thesis
  proof cases
    case 1
    from attempt_body_success [OF 1] show ?thesis by auto
  next
    case 2
    then have "picks = sort_key pickNumber (map (identity_pick cfg r) io)"
      by (auto simp: no_movement_fallback_eq split: if_splits)
    then show ?thesis by (auto simp: identity_pick_fields)
  qed
qed

lemma runLotteryRound_total:
  assumes "teams_exist cfg io"
  shows "\<exists>picks g'. runLotteryRound sh cfg r io g = (Inr picks, g')"
proof -
  obtain res g' where r: "runLotteryRound sh cfg r io g = (res, g')"
    by (cases "runLotteryRound sh cfg r io g")
  from runLotteryRound_cases [OF r] assms have "\<exists>picks. res = Inr picks"
    by (auto simp: no_movement_fallback_eq)
  with r show ?thesis by auto
qed

lemma runLotteryRound_length:
  assumes "runLotteryRound sh cfg r io g = (Inr picks, g')"
    and "\<And>ts g. mset (fst (sh ts g)) = mset ts"
  shows "mset (map originalPosition picks) = mset io"
proof -
  from runLotteryRound_cases [OF assms(1)]
  consider g1 where "attempt_body sh cfg r io g1 = (Inr (Some picks), g')"
    | "Inr picks = no_movement_fallback cfg r io" by auto
  then show ?thesis
  proof cases
    case 1
    from attempt_body_success [OF 1] obtain entries out where
      e: "build_teams cfg io = Inr entries" and p: "picks = sort_key pickNumber out"
      and o: "map originalPosition out = map fst (fst (sh entries g1))" by blast
    from e have "map fst entries = io" by (auto simp: build_teams_eq comp_def split: if_splits)
    moreover have "mset (map fst (fst (sh entries g1))) = mset (map fst entries)"
      using assms(2) [of entries g1] by (metis mset_map)
    moreover have "mset (map originalPosition picks) = mset (map originalPosition out)"
      using p by simp
    ultimately show ?thesis using o by simp
  next
    case 2
    then have "picks = sort_key pickNumber (map (identity_pick cfg r) io)"
      by (auto simp: no_movement_fallback_eq split: if_splits)
    then have "mset (map originalPosition picks)
                 = mset (map originalPosition (map (identity_pick cfg r) io))"
      by (simp only: mset_map mset_sort)
    moreover have "map originalPosition (map (identity_pick cfg r) io) = io"
      by (simp add: comp_def identity_pick_fields)
    ultimately show ?thesis by (simp only:)
  qed
qed

lemma distinct_subset_full:
  fixes xs :: "int list"
  assumes "distinct xs" and "set xs \<subseteq> {1..n}" and "length xs = nat n"
  shows "sort xs = [1..n]"
proof -
  have "card (set xs) = card {1..n}" using assms(1,3) by (simp add: distinct_card)
  with assms(2) have "set xs = {1..n}" by (simp add: card_subset_eq)
  then have "set (sort xs) = set [1..n]" by simp
  moreover have "distinct (sort xs)" using assms(1) by simp
  ultimately show ?thesis
    by (intro sorted_distinct_set_unique) simp_all
qed

lemma runLotteryRound_pick_numbers:
  assumes run: "runLotteryRound sh cfg r io g = (Inr picks, g')"
    and sh: "\<And>ts g. mset (fst (sh ts g)) = mset ts"
    and io: "is_permutation io (numberOfTeams cfg)"
  shows "map pickNumber picks = [1..numberOfTeams cfg]"
proof -
  from runLotteryRound_cases [OF run]
  consider g1 where "attempt_body sh cfg r io g1 = (Inr (Some picks), g')"
    | "Inr picks = no_movement_fallback cfg r io" by auto
  then show ?thesis
  proof cases
    case 1
    from attempt_body_success [OF 1] obtain entries out where
      p: "picks = sort_key pickNumber (out :: DraftPick list)"
      and d: "distinct (map pickNumber out)"
      and s: "set (map pickNumber out) \<subseteq> {1..numberOfTeams cfg}" by blast
    have "size (mset (map originalPosition picks)) = size (mset io)"
      using runLotteryRound_length [OF run sh] by simp
    then have "length picks = length io" by simp
    with p is_permutation_props(2) [OF io] have "length (map pickNumber out) = nat (numberOfTeams cfg)"
      by simp
    from distinct_subset_full [OF d s this] p show ?thesis by (simp add: map_sort_key)
  next
    case 2
    then have "picks = sort_key pickNumber (map (identity_pick cfg r) io)"
      by (auto simp: no_movement_fallback_eq split: if_splits)
    then have "map pickNumber picks = sort io"
      by (simp add: map_sort_key comp_def identity_pick_fields)
    with io show ?thesis by (simp add: is_permutation_def)
  qed
qed

section \<open>Validation and the loop over the rounds\<close>

lemma length_validation_errors:
  "length (validation_errors picks errs)
     = length errs + length (filter (\<lambda>p. \<bar>movement p\<bar> > MAX_MOVEMENT) picks)"
  by (induction picks arbitrary: errs) (auto simp: Let_def)

lemma valid_validateDraftResults:
  "valid (validateDraftResults picks) = (\<forall>p\<in>set picks. \<bar>movement p\<bar> \<le> 2)"
proof -
  have "(length (validation_errors picks []) = 0)
          = (filter (\<lambda>p. \<bar>movement p\<bar> > MAX_MOVEMENT) picks = [])"
    by (simp only: length_validation_errors) simp
  then show ?thesis
    by (auto simp: validateDraftResults_def Let_def filter_empty_conv MAX_MOVEMENT_def not_less)
qed

lemma rounds_loop_structure:
  assumes "rounds_loop sh cfg io rnd acc g = (Inr allPicks, g')"
  shows "\<exists>rounds. allPicks = acc @ concat rounds
           \<and> length rounds = nat (numberOfRounds cfg + 1 - rnd)
           \<and> (\<forall>i<length rounds. \<exists>g1 g2.
                 runLotteryRound sh cfg (rnd + int i) io g1 = (Inr (rounds ! i), g2))"
  using assms
proof (induction sh cfg io rnd acc g rule: rounds_loop.induct)
  case (1 sh cfg io rnd acc g)
  show ?case
  proof (cases "rnd \<le> numberOfRounds cfg")
    case False
    with "1.prems" have "allPicks = acc" by (simp add: rounds_loop.simps)
    with False show ?thesis by (intro exI [of _ "[]"]) simp
  next
    case True
    obtain res g1 where run: "runLotteryRound sh cfg rnd io g = (res, g1)"
      by (cases "runLotteryRound sh cfg rnd io g")
    from "1.prems" True run obtain roundPicks where rp: "res = Inr roundPicks"
      by (cases res) (auto simp: rounds_loop.simps [of sh cfg io rnd])
    from "1.prems" True run rp have v: "valid (validateDraftResults roundPicks)"
      and rec: "rounds_loop sh cfg io (rnd + 1) (acc @ roundPicks) g1 = (Inr allPicks, g')"
      by (auto simp: rounds_loop.simps [of sh cfg io rnd] Let_def split: if_splits)
    from v have nv: "\<not> \<not> valid (validateDraftResults roundPicks)" by simp
    from "1.IH" [OF True run [symmetric] rp refl nv rec] obtain rounds where rs:
      "allPicks = (acc @ roundPicks) @ concat rounds"
      "length rounds = nat (numberOfRounds cfg + 1 - (rnd + 1))"
      "\<forall>i<length rounds. \<exists>g1 g2.
          runLotteryRound sh cfg (rnd + 1 + int i) io g1 = (Inr (rounds ! i), g2)"
      by blast
    show ?thesis
    proof (intro exI [of _ "roundPicks # rounds"] conjI allI impI)
      show "allPicks = acc @ concat (roundPicks # rounds)" using rs(1) by simp
      show "length (roundPicks # rounds) = nat (numberOfRounds cfg + 1 - rnd)"
        using rs(2) True by simp
    next
      fix i assume i: "i < length (roundPicks # rounds)"
      show "\<exists>g1 g2. runLotteryRound sh cfg (rnd + int i) io g1
                       = (Inr ((roundPicks # rounds) ! i), g2)"
      proof (cases i)
        case 0
        with run rp show ?thesis by auto
      next
        case (Suc j)
        with i have "j < length rounds" by simp
        with rs(3) obtain g1 g2 where
          "runLotteryRound sh cfg (rnd + 1 + int j) io g1 = (Inr (rounds ! j), g2)" by blast
        moreover have "rnd + 1 + int j = rnd + int i" using Suc by simp
        ultimately show ?thesis using Suc by auto
      qed
    qed
  qed
qed

lemma rounds_loop_total:
  assumes "teams_exist cfg io"
  shows "\<exists>allPicks g'. rounds_loop sh cfg io rnd acc g = (Inr allPicks, g')"
  using assms
proof (induction sh cfg io rnd acc g rule: rounds_loop.induct)
  case (1 sh cfg io rnd acc g)
  show ?case
  proof (cases "rnd \<le> numberOfRounds cfg")
    case False
    then show ?thesis by (simp add: rounds_loop.simps)
  next
    case True
    from runLotteryRound_total [OF "1.prems"] obtain roundPicks g1 where
      run: "runLotteryRound sh cfg rnd io g = (Inr roundPicks, g1)" by blast
    from runLotteryRound_picks [OF run] have v: "valid (validateDraftResults roundPicks)"
      unfolding valid_validateDraftResults by blast
    then have nv: "\<not> \<not> valid (validateDraftResults roundPicks)" by simp
    from "1.IH" [OF True run [symmetric] refl refl nv "1.prems"] obtain allPicks g' where
      "rounds_loop sh cfg io (rnd + 1) (acc @ roundPicks) g1 = (Inr allPicks, g')" by blast
    with True run v show ?thesis by (simp add: rounds_loop.simps [of sh cfg io rnd])
  qed
qed

section \<open>The permutation and displacement invariants\<close>

lemma perm_wf_teams_exist:
  assumes "well_formed cfg" and "is_permutation io (numberOfTeams cfg)"
  shows "teams_exist cfg io"
  using assms by (simp add: well_formed_def teams_exist_wf)

lemma runLotteryRound_size:
  assumes "runLotteryRound sh cfg r io g = (Inr picks, g')"
    and "\<And>ts g. mset (fst (sh ts g)) = mset ts"
  shows "length picks = length io"
proof -
  have "size (mset (map originalPosition picks)) = size (mset io)"
    using runLotteryRound_length [OF assms] by simp
  then show ?thesis by simp
qed

text \<open>
  Claim C1. For a well-formed configuration and an initial order that is a permutation
  of \<open>1..N\<close>, \<open>runLotteryRound\<close> returns picks whose pick numbers are the positions
  \<open>1..N\<close>, each once, in ascending order: the sequence of \<open>pickNumber\<close> fields is
  \<open>1, 2, ..., N\<close>. The shuffle is any reordering of the teams.
\<close>

theorem C1_round_pick_numbers:
  assumes "well_formed cfg"
    and "is_permutation io (numberOfTeams cfg)"
    and "\<And>ts g. mset (fst (sh ts g)) = mset ts"
  shows "\<exists>picks g'. runLotteryRound sh cfg r io g = (Inr picks, g')
           \<and> map pickNumber picks = [1..numberOfTeams cfg]
           \<and> set (map pickNumber picks) = {1..numberOfTeams cfg}
           \<and> distinct (map pickNumber picks)"
proof -
  from runLotteryRound_total [OF perm_wf_teams_exist [OF assms(1,2)]] obtain picks g' where
    run: "runLotteryRound sh cfg r io g = (Inr picks, g')" by blast
  from runLotteryRound_pick_numbers [OF run assms(3,2)]
  have m: "map pickNumber picks = [1..numberOfTeams cfg]" .
  have "set (map pickNumber picks) = {1..numberOfTeams cfg}"
    and "distinct (map pickNumber picks)"
    unfolding m by simp_all
  with run m show ?thesis by blast
qed

theorem C1_witness:
  "map pickNumber (projr (fst (runLotteryRound stable_on_ties example_config 1 [1, 2, 3]
                                 example_rng))) = [1, 2, 3]"
proof -
  have wf: "well_formed example_config" by code_simp
  have pm: "is_permutation [1, 2, 3] (numberOfTeams example_config)" by code_simp
  have sh: "\<And>ts g. mset (fst (stable_on_ties ts g)) = mset ts"
    by (simp add: stable_on_ties_def)
  have up: "[1..numberOfTeams example_config] = [1, 2, 3]" by code_simp
  from C1_round_pick_numbers [where sh = stable_on_ties and cfg = example_config
      and io = "[1, 2, 3]" and r = 1 and g = example_rng, OF wf pm sh] show ?thesis
    unfolding up by auto
qed

text \<open>
  Claim C2. Every pick that \<open>runLotteryRound\<close> returns, and every pick that
  \<open>runCompleteLottery\<close> returns, has \<open>movement = pickNumber - originalPosition\<close> and
  \<open>|movement| \<le> 2\<close>, for every configuration, initial order, shuffle and random source
  on which the operation returns normally.
\<close>

theorem C2_movement_bound:
  "(runLotteryRound sh cfg r io g = (Inr picks, g') \<longrightarrow>
      (\<forall>p\<in>set picks. movement p = pickNumber p - originalPosition p \<and> \<bar>movement p\<bar> \<le> 2))
   \<and> (runCompleteLottery sh cfg io g = (Inr allPicks, g'') \<longrightarrow>
      (\<forall>p\<in>set allPicks. movement p = pickNumber p - originalPosition p \<and> \<bar>movement p\<bar> \<le> 2))"
proof (rule conjI; rule impI; rule ballI)
  fix p assume "runLotteryRound sh cfg r io g = (Inr picks, g')" and "p \<in> set picks"
  with runLotteryRound_picks
  show "movement p = pickNumber p - originalPosition p \<and> \<bar>movement p\<bar> \<le> 2" by blast
next
  fix p assume run: "runCompleteLottery sh cfg io g = (Inr allPicks, g'')" and p: "p \<in> set allPicks"
  from run have "rounds_loop sh cfg io 1 [] g = (Inr allPicks, g'')"
    by (auto simp: runCompleteLottery_def split: if_splits)
  from rounds_loop_structure [OF this] obtain rounds where
    a: "allPicks = concat rounds"
    and rs: "\<forall>i<length rounds. \<exists>g1 g2.
               runLotteryRound sh cfg (1 + int i) io g1 = (Inr (rounds ! i), g2)"
    by auto
  from p a obtain xs where "xs \<in> set rounds" and "p \<in> set xs" by auto
  then obtain i where i: "i < length rounds" and pi: "p \<in> set (rounds ! i)"
    by (metis in_set_conv_nth)
  from rs i obtain g1 g2 where
    "runLotteryRound sh cfg (1 + int i) io g1 = (Inr (rounds ! i), g2)" by blast
  from runLotteryRound_picks [OF this] pi
  show "movement p = pickNumber p - originalPosition p \<and> \<bar>movement p\<bar> \<le> 2" by blast
qed

theorem C2_witness:
  "fst (runLotteryRound stable_on_ties example_config 1 [1, 2, 3] example_rng)
     = Inr (example_round 1)
   \<and> \<bar>movement (example_round 1 ! 0)\<bar> \<le> 2
   \<and> fst (runCompleteLottery stable_on_ties example_config [1, 2, 3] example_rng)
     = Inr (example_round 1 @ example_round 2)
   \<and> \<bar>movement ((example_round 1 @ example_round 2) ! 4)\<bar> \<le> 2"
proof -
  let ?one = "runLotteryRound stable_on_ties example_config 1 [1, 2, 3] example_rng"
  let ?all = "runCompleteLottery stable_on_ties example_config [1, 2, 3] example_rng"
  have one: "fst ?one = Inr (example_round 1)" by code_simp
  have all: "fst ?all = Inr (example_round 1 @ example_round 2)" by code_simp
  have h1: "?one = (Inr (example_round 1), snd ?one)" using one by (simp add: prod_eq_iff)
  have h2: "?all = (Inr (example_round 1 @ example_round 2), snd ?all)"
    using all by (simp add: prod_eq_iff)
  have m1: "example_round 1 ! 0 \<in> set (example_round 1)" by (simp add: example_round_def)
  have m2: "(example_round 1 @ example_round 2) ! 4 \<in> set (example_round 1 @ example_round 2)"
    by (simp add: example_round_def)
  from C2_movement_bound [of stable_on_ties example_config 1 "[1, 2, 3]" example_rng
      "example_round 1" "snd ?one" "example_round 1 @ example_round 2" "snd ?all"]
    h1 h2 m1 m2 one all
  show ?thesis by blast
qed

section \<open>Exhausted attempts\<close>

lemma attempts_loop_all_fail:
  assumes "\<forall>k. attempt \<le> k \<and> k < MAX_ATTEMPTS \<longrightarrow>
             attempt_failed (fst (attempt_body sh cfg r io
                (((\<lambda>h. snd (attempt_body sh cfg r io h)) ^^ (k - attempt)) g)))"
  shows "attempts_loop sh cfg r io attempt g =
           (no_movement_fallback cfg r io,
            ((\<lambda>h. snd (attempt_body sh cfg r io h)) ^^ (MAX_ATTEMPTS - attempt)) g)"
  using assms
proof (induction sh cfg r io attempt g rule: attempts_loop.induct)
  case (1 sh cfg r io attempt g)
  let ?f = "\<lambda>h. snd (attempt_body sh cfg r io h)"
  show ?case
  proof (cases "attempt < MAX_ATTEMPTS")
    case False
    then show ?thesis by (simp add: attempts_loop.simps)
  next
    case True
    obtain x g1 where ab: "attempt_body sh cfg r io g = (x, g1)"
      by (cases "attempt_body sh cfg r io g")
    from "1.prems" True have "attempt_failed (fst (attempt_body sh cfg r io ((?f ^^ 0) g)))"
      by (metis diff_self_eq_0 le_refl)
    with ab have fx: "attempt_failed x" by simp
    have nxt: "\<forall>k. attempt + 1 \<le> k \<and> k < MAX_ATTEMPTS \<longrightarrow>
             attempt_failed (fst (attempt_body sh cfg r io ((?f ^^ (k - (attempt + 1))) g1)))"
    proof (intro allI impI)
      fix k assume k: "attempt + 1 \<le> k \<and> k < MAX_ATTEMPTS"
      then have "k - attempt = Suc (k - (attempt + 1))" by linarith
      then have "(?f ^^ (k - attempt)) g = (?f ^^ (k - (attempt + 1))) (?f g)"
        by (simp only: funpow_Suc_right o_apply)
      moreover from "1.prems" k
      have "attempt_failed (fst (attempt_body sh cfg r io ((?f ^^ (k - attempt)) g)))" by simp
      ultimately show "attempt_failed (fst (attempt_body sh cfg r io ((?f ^^ (k - (attempt + 1))) g1)))"
        using ab by simp
    qed
    have step: "(?f ^^ (MAX_ATTEMPTS - attempt)) g = (?f ^^ (MAX_ATTEMPTS - (attempt + 1))) g1"
    proof -
      from True have "MAX_ATTEMPTS - attempt = Suc (MAX_ATTEMPTS - (attempt + 1))" by linarith
      then have "(?f ^^ (MAX_ATTEMPTS - attempt)) g = (?f ^^ (MAX_ATTEMPTS - (attempt + 1))) (?f g)"
        by (simp only: funpow_Suc_right o_apply)
      with ab show ?thesis by simp
    qed
    show ?thesis
    proof (cases x)
      case (Inl e)
      from "1.IH"(1) [OF True ab [symmetric] Inl nxt] True ab Inl step show ?thesis
        by (simp add: attempts_loop.simps [of sh cfg r io attempt])
    next
      case (Inr y)
      with fx obtain "y = None" by (cases y) (auto simp: attempt_failed_def)
      from "1.IH"(2) [OF True ab [symmetric] Inr this nxt] True ab Inr \<open>y = None\<close> step
      show ?thesis by (simp add: attempts_loop.simps [of sh cfg r io attempt])
    qed
  qed
qed

lemma runLotteryRound_all_fail:
  assumes "all_attempts_fail sh cfg r io g"
  shows "runLotteryRound sh cfg r io g =
           (no_movement_fallback cfg r io, rng_after sh cfg r io MAX_ATTEMPTS g)"
proof -
  from assms have "\<forall>k. 0 \<le> k \<and> k < MAX_ATTEMPTS \<longrightarrow>
      attempt_failed (fst (attempt_body sh cfg r io
         (((\<lambda>h. snd (attempt_body sh cfg r io h)) ^^ (k - 0)) g)))"
    by (simp add: all_attempts_fail_def list_all_iff rng_after_def)
  from attempts_loop_all_fail [OF this] show ?thesis
    by (simp add: runLotteryRound_def rng_after_def)
qed

lemma all_attempts_failI:
  assumes "\<And>h. attempt_failed (fst (attempt_body sh cfg r io h))"
  shows "all_attempts_fail sh cfg r io g"
  using assms by (simp add: all_attempts_fail_def list_all_iff)

lemma attempt_body_no_team:
  assumes "\<not> teams_exist cfg io"
  shows "attempt_body sh cfg r io g = (Inl TypeError, g)"
  using assms by (simp add: attempt_body_def build_teams_eq)


lemma example_no_team: "\<not> teams_exist example_config [1, 2, 7]"
  by code_simp

lemma example_no_team_round:
  "runLotteryRound stable_on_ties example_config r [1, 2, 7] g
     = (Inl TypeError, rng_after stable_on_ties example_config r [1, 2, 7] MAX_ATTEMPTS g)"
proof -
  have "all_attempts_fail stable_on_ties example_config r [1, 2, 7] g"
    by (rule all_attempts_failI)
       (simp add: attempt_body_no_team [OF example_no_team] attempt_failed_def)
  from runLotteryRound_all_fail [OF this] example_no_team show ?thesis
    by (simp add: no_movement_fallback_eq)
qed

lemma no_odds_attempt:
  "attempt_body stable_on_ties no_odds_config r [3, 1, 2] h
     = (Inl (Error ''No valid positions available for team at original position 3''),
        h\<lparr> used := used h + 2 \<rparr>)"
proof -
  have te: "teams_exist no_odds_config [3, 1, 2]" by code_simp
  have ws: "weightedSystem no_odds_config = []" by (simp add: no_odds_config_def)
  have n: "numberOfTeams no_odds_config = 3"
    by (simp add: no_odds_config_def example_config_def)
  have ap: "all_positions 3 = [1, 2, 3]" by code_simp
  have s3: "show_int 3 = ''3''" by code_simp
  have w: "weightedRandomSelection [1, 2, 3] [] 3 g
             = (Inl (Error ''No valid positions available for team at original position 3''), g)"
    for g
    by (subst wrs_empty) (simp_all add: window_filter_def getValidPositionRange_def s3)
  show ?thesis
    apply (simp add: attempt_body_def build_teams_eq te stable_on_ties_def)
    apply (simp add: ws n ap w window_filter_def getValidPositionRange_def MAX_MOVEMENT_def)
    done
qed


text \<open>
  Claim C6, as stated: if every one of the 1000 attempts fails, \<open>runLotteryRound\<close>
  returns the identity assignment. It fails where the attempts fail because an entry of
  the initial order has no stored team: the statement after the loop reads the same team
  and raises the \<open>TypeError\<close> again, outside any \<open>try\<close>.
\<close>

theorem C6_counterexample:
  "all_attempts_fail stable_on_ties example_config 1 [1, 2, 7] example_rng
   \<and> fst (runLotteryRound stable_on_ties example_config 1 [1, 2, 7] example_rng) = Inl TypeError"
proof
  show "all_attempts_fail stable_on_ties example_config 1 [1, 2, 7] example_rng"
    by (rule all_attempts_failI)
       (simp add: attempt_body_no_team [OF example_no_team] attempt_failed_def)
  show "fst (runLotteryRound stable_on_ties example_config 1 [1, 2, 7] example_rng) = Inl TypeError"
    by (simp add: example_no_team_round)
qed

text \<open>
  Claim C6, amended. If every one of the 1000 attempts fails and every entry of the
  initial order is the position of a stored team, \<open>runLotteryRound\<close> returns the identity
  assignment: one pick per entry of the initial order, with \<open>pickNumber\<close> equal to
  \<open>originalPosition\<close> and \<open>movement = 0\<close>, sorted ascending by position.
\<close>

theorem C6_fallback_identity:
  assumes "all_attempts_fail sh cfg r io g" and "teams_exist cfg io"
  shows "\<exists>picks. runLotteryRound sh cfg r io g
                    = (Inr picks, rng_after sh cfg r io MAX_ATTEMPTS g)
           \<and> picks = sort_key pickNumber (map (identity_pick cfg r) io)
           \<and> length picks = length io
           \<and> map originalPosition picks = sort io
           \<and> sorted (map pickNumber picks)
           \<and> (\<forall>p\<in>set picks. pickNumber p = originalPosition p \<and> movement p = 0
                                  \<and> round' p = r)"
proof -
  let ?picks = "sort_key pickNumber (map (identity_pick cfg r) io)"
  have run: "runLotteryRound sh cfg r io g = (Inr ?picks, rng_after sh cfg r io MAX_ATTEMPTS g)"
    using runLotteryRound_all_fail [OF assms(1)] assms(2) by (simp add: no_movement_fallback_eq)
  have "map pickNumber ?picks = sort io"
    by (simp add: map_sort_key comp_def identity_pick_fields)
  moreover have eq: "map originalPosition ?picks = map pickNumber ?picks"
    by (rule map_cong) (auto simp: identity_pick_fields)
  ultimately have op: "map originalPosition ?picks = sort io" by simp
  have "sorted (map pickNumber ?picks)" by (rule sorted_sort_key)
  moreover have "\<forall>p\<in>set ?picks. pickNumber p = originalPosition p \<and> movement p = 0 \<and> round' p = r"
    by (auto simp: identity_pick_fields)
  ultimately show ?thesis using run op by simp
qed



theorem C6_witness:
  "fst (runLotteryRound stable_on_ties no_odds_config 1 [3, 1, 2] example_rng)
     = Inr [\<lparr> round' = 1, pickNumber = 1, teamId = ''1'', originalPosition = 1, movement = 0 \<rparr>,
            \<lparr> round' = 1, pickNumber = 2, teamId = ''2'', originalPosition = 2, movement = 0 \<rparr>,
            \<lparr> round' = 1, pickNumber = 3, teamId = ''3'', originalPosition = 3, movement = 0 \<rparr>]"
proof -
  have fail: "all_attempts_fail stable_on_ties no_odds_config 1 [3, 1, 2] example_rng"
    by (rule all_attempts_failI) (simp add: no_odds_attempt attempt_failed_def)
  have te: "teams_exist no_odds_config [3, 1, 2]" by code_simp
  have srt: "sort_key pickNumber (map (identity_pick no_odds_config 1) [3, 1, 2])
     = [\<lparr> round' = 1, pickNumber = 1, teamId = ''1'', originalPosition = 1, movement = 0 \<rparr>,
        \<lparr> round' = 1, pickNumber = 2, teamId = ''2'', originalPosition = 2, movement = 0 \<rparr>,
        \<lparr> round' = 1, pickNumber = 3, teamId = ''3'', originalPosition = 3, movement = 0 \<rparr>]"
    by code_simp
  from C6_fallback_identity [OF fail te] obtain picks where
    "runLotteryRound stable_on_ties no_odds_config 1 [3, 1, 2] example_rng
       = (Inr picks, rng_after stable_on_ties no_odds_config 1 [3, 1, 2] MAX_ATTEMPTS example_rng)"
    and "picks = sort_key pickNumber (map (identity_pick no_odds_config 1) [3, 1, 2])"
    by blast
  then show ?thesis by (simp only: srt fst_conv)
qed

section \<open>The length check of the complete lottery\<close>

lemma sublist_middle: "sublist m (a @ m @ b)"
  by (auto simp: sublist_def)

lemma mismatch_message_contains:
  "sublist (show_nat len) (length_mismatch_message len n)"
  "sublist (show_int n) (length_mismatch_message len n)"
proof -
  show "sublist (show_nat len) (length_mismatch_message len n)"
    unfolding length_mismatch_message_def by (rule sublist_middle)
  have "length_mismatch_message len n
          = (''Initial order length ('' @ show_nat len @ '') must match number of teams ('')
            @ show_int n @ '')''"
    by (simp add: length_mismatch_message_def)
  then show "sublist (show_int n) (length_mismatch_message len n)"
    by (simp only: sublist_middle)
qed

text \<open>
  Claim C3, as stated: \<open>runCompleteLottery\<close> is total on every initial order whose
  length equals \<open>numberOfTeams\<close>. It is not: an entry without a stored team makes every
  attempt of the first round fail, and the \<open>TypeError\<close> of the statement after the loop
  escapes \<open>runLotteryRound\<close> and \<open>runCompleteLottery\<close>.
\<close>

theorem C3_counterexample:
  "int (length [1, 2, 7 :: int]) = numberOfTeams example_config
   \<and> fst (runCompleteLottery stable_on_ties example_config [1, 2, 7] example_rng) = Inl TypeError"
proof
  show "int (length [1, 2, 7 :: int]) = numberOfTeams example_config"
    by (simp add: example_config_def)
  have "1 \<le> numberOfRounds example_config" by (simp add: example_config_def)
  then show "fst (runCompleteLottery stable_on_ties example_config [1, 2, 7] example_rng)
               = Inl TypeError"
    by (simp add: runCompleteLottery_def example_config_def [symmetric]
          rounds_loop.simps [of _ _ _ 1] example_no_team_round)
       (simp add: example_config_def)
qed

text \<open>
  Claim C3, amended. \<open>runCompleteLottery\<close> throws the length-mismatch error whenever
  the length of the initial order differs from \<open>numberOfTeams\<close>, and the message
  contains both the given length and the configured number of teams. For every initial
  order whose length equals \<open>numberOfTeams\<close> and whose entries are all positions of
  stored teams it returns a pick list, without any error escaping.
\<close>

theorem C3_length_check:
  "(int (length io) \<noteq> numberOfTeams cfg \<longrightarrow>
      runCompleteLottery sh cfg io g
        = (Inl (Error (length_mismatch_message (length io) (numberOfTeams cfg))), g)
      \<and> sublist (show_nat (length io)) (length_mismatch_message (length io) (numberOfTeams cfg))
      \<and> sublist (show_int (numberOfTeams cfg))
           (length_mismatch_message (length io) (numberOfTeams cfg)))
   \<and> (int (length io) = numberOfTeams cfg \<and> teams_exist cfg io \<longrightarrow>
      (\<exists>picks g'. runCompleteLottery sh cfg io g = (Inr picks, g')))"
proof (rule conjI; rule impI)
  assume "int (length io) \<noteq> numberOfTeams cfg"
  then show "runCompleteLottery sh cfg io g
        = (Inl (Error (length_mismatch_message (length io) (numberOfTeams cfg))), g)
      \<and> sublist (show_nat (length io)) (length_mismatch_message (length io) (numberOfTeams cfg))
      \<and> sublist (show_int (numberOfTeams cfg))
           (length_mismatch_message (length io) (numberOfTeams cfg))"
    by (simp add: runCompleteLottery_def mismatch_message_contains)
next
  assume "int (length io) = numberOfTeams cfg \<and> teams_exist cfg io"
  then show "\<exists>picks g'. runCompleteLottery sh cfg io g = (Inr picks, g')"
    using rounds_loop_total [of cfg io sh 1 "[]" g] by (simp add: runCompleteLottery_def)
qed

theorem C3_witness:
  "fst (runCompleteLottery stable_on_ties example_config [1, 2] example_rng)
     = Inl (Error ''Initial order length (2) must match number of teams (3)'')
   \<and> length_mismatch_message 5 10 = ''Initial order length (5) must match number of teams (10)''
   \<and> sublist ''5'' (length_mismatch_message 5 10)
   \<and> sublist ''10'' (length_mismatch_message 5 10)
   \<and> isl (fst (runCompleteLottery stable_on_ties example_config [1, 2, 3] example_rng)) = False"
proof -
  have ne: "int (length [1, 2 :: int]) \<noteq> numberOfTeams example_config"
    by (simp add: example_config_def)
  have m: "length_mismatch_message (length [1, 2 :: int]) (numberOfTeams example_config)
             = ''Initial order length (2) must match number of teams (3)''"
    by code_simp
  have m5: "length_mismatch_message 5 10
              = ''Initial order length (5) must match number of teams (10)''"
    by code_simp
  have s5: "show_nat 5 = ''5''" and s10: "show_int 10 = ''10''" by code_simp+
  have eq: "int (length [1, 2, 3 :: int]) = numberOfTeams example_config"
    by (simp add: example_config_def)
  have te: "teams_exist example_config [1, 2, 3]" by code_simp
  have a: "fst (runCompleteLottery stable_on_ties example_config [1, 2] example_rng)
     = Inl (Error ''Initial order length (2) must match number of teams (3)'')"
    using C3_length_check [of "[1, 2]" example_config stable_on_ties example_rng] ne m by simp
  have b: "isl (fst (runCompleteLottery stable_on_ties example_config [1, 2, 3] example_rng)) = False"
    using C3_length_check [of "[1, 2, 3]" example_config stable_on_ties example_rng] eq te by auto
  have c: "sublist ''5'' (length_mismatch_message 5 10)"
    using mismatch_message_contains(1) [of 5 10] s5 by simp
  have d: "sublist ''10'' (length_mismatch_message 5 10)"
    using mismatch_message_contains(2) [of 10 5] s10 by simp
  from a b c d m5 show ?thesis by simp
qed

section \<open>The shape of the complete lottery\<close>

lemma count_in_replicated:
  "length (filter (\<lambda>x. x = r) (concat (map (replicate n) xs)))
     = n * length (filter (\<lambda>x. x = r) xs)"
  by (induction xs) auto

lemma count_in_upto:
  "length (filter (\<lambda>x. x = r) [1..R]) = (if 1 \<le> r \<and> r \<le> R then 1 else 0)"
proof -
  have "length (filter (\<lambda>x. x = r) [1..R]) = card ({x. x = r} \<inter> set [1..R])"
    by (rule distinct_length_filter) simp
  moreover have "{x. x = r} \<inter> set [1..R] = (if 1 \<le> r \<and> r \<le> R then {r} else {})"
    by auto
  ultimately show ?thesis by simp
qed

text \<open>
  Claim C7. For a well-formed configuration with \<open>N\<close> teams and \<open>R\<close> rounds and an
  initial order that is a permutation of \<open>1..N\<close>, \<open>runCompleteLottery\<close> returns exactly
  \<open>N * R\<close> picks; the sequence of their round numbers is \<open>N\<close> times 1, then \<open>N\<close> times
  2, and so on up to \<open>R\<close>, so the picks of round \<open>r\<close> precede those of round \<open>r + 1\<close>,
  exactly \<open>N\<close> picks carry each round number in \<open>1..R\<close>, and no other round number
  occurs.
\<close>

theorem C7_complete_lottery_shape:
  assumes "well_formed cfg"
    and "is_permutation io (numberOfTeams cfg)"
    and "\<And>ts g. mset (fst (sh ts g)) = mset ts"
  shows "\<exists>allPicks g'. runCompleteLottery sh cfg io g = (Inr allPicks, g')
           \<and> length allPicks = nat (numberOfTeams cfg * numberOfRounds cfg)
           \<and> map round' allPicks
               = concat (map (replicate (nat (numberOfTeams cfg))) [1..numberOfRounds cfg])
           \<and> (\<forall>r. length (filter (\<lambda>p. round' p = r) allPicks)
                      = (if 1 \<le> r \<and> r \<le> numberOfRounds cfg then nat (numberOfTeams cfg) else 0))"
proof -
  let ?N = "numberOfTeams cfg" and ?R = "numberOfRounds cfg"
  have te: "teams_exist cfg io" by (rule perm_wf_teams_exist [OF assms(1,2)])
  have len: "int (length io) = ?N"
    using is_permutation_props(2) [OF assms(2)] assms(1) by (simp add: well_formed_def)
  from rounds_loop_total [OF te, of sh 1 "[]" g] obtain allPicks g' where
    loop: "rounds_loop sh cfg io 1 [] g = (Inr allPicks, g')" by blast
  with len have run: "runCompleteLottery sh cfg io g = (Inr allPicks, g')"
    by (simp add: runCompleteLottery_def)
  from rounds_loop_structure [OF loop] obtain rounds where
    a: "allPicks = concat rounds"
    and l: "length rounds = nat ?R"
    and rs: "\<forall>i<length rounds. \<exists>g1 g2.
               runLotteryRound sh cfg (1 + int i) io g1 = (Inr (rounds ! i), g2)"
    by auto
  have each: "map round' (rounds ! i) = replicate (nat ?N) (1 + int i)" if "i < length rounds" for i
  proof -
    from rs that obtain g1 g2 where
      r: "runLotteryRound sh cfg (1 + int i) io g1 = (Inr (rounds ! i), g2)" by blast
    from runLotteryRound_size [OF r assms(3)] len have "length (rounds ! i) = nat ?N" by simp
    moreover from runLotteryRound_picks [OF r]
    have "\<forall>p\<in>set (rounds ! i). round' p = 1 + int i" by blast
    ultimately show ?thesis
      by (intro replicate_eqI) auto
  qed
  have "map (map round') rounds = map (replicate (nat ?N)) [1..?R]"
  proof (rule nth_equalityI)
    show "length (map (map round') rounds) = length (map (replicate (nat ?N)) [1..?R])"
      using l by simp
  next
    fix i assume "i < length (map (map round') rounds)"
    then have i: "i < length rounds" by simp
    with l have "[1..?R] ! i = 1 + int i" by (simp add: nth_upto)
    with i l each [OF i]
    show "map (map round') rounds ! i = map (replicate (nat ?N)) [1..?R] ! i" by simp
  qed
  then have rounds: "map round' allPicks = concat (map (replicate (nat ?N)) [1..?R])"
    by (simp add: a map_concat)
  have "length allPicks = length (map round' allPicks)" by simp
  also have "\<dots> = nat ?N * nat ?R"
    unfolding rounds by (simp add: length_concat comp_def sum_list_triv)
  also have "\<dots> = nat (?N * ?R)"
    using assms(1) by (simp add: well_formed_def nat_mult_distrib)
  finally have total: "length allPicks = nat (?N * ?R)" .
  have cnt: "length (filter (\<lambda>p. round' p = r) allPicks)
               = (if 1 \<le> r \<and> r \<le> ?R then nat ?N else 0)" for r
  proof -
    have "length (filter (\<lambda>p. round' p = r) allPicks)
            = length (filter (\<lambda>x. x = r) (map round' allPicks))"
      by (simp add: filter_map comp_def)
    then show ?thesis
      unfolding rounds by (simp add: count_in_replicated count_in_upto)
  qed
  from run total rounds cnt show ?thesis by blast
qed

theorem C7_witness:
  "map round' (projr (fst (runCompleteLottery stable_on_ties example_config [1, 2, 3]
                             example_rng))) = [1, 1, 1, 2, 2, 2]
   \<and> length (projr (fst (runCompleteLottery stable_on_ties example_config [1, 2, 3]
                           example_rng))) = 6"
proof -
  have wf: "well_formed example_config" by code_simp
  have pm: "is_permutation [1, 2, 3] (numberOfTeams example_config)" by code_simp
  have sh: "\<And>ts g. mset (fst (stable_on_ties ts g)) = mset ts"
    by (simp add: stable_on_ties_def)
  have r: "concat (map (replicate (nat (numberOfTeams example_config)))
                     [1..numberOfRounds example_config]) = [1, 1, 1, 2, 2, 2]"
    by code_simp
  have n: "nat (numberOfTeams example_config * numberOfRounds example_config) = 6"
    by (simp add: example_config_def)
  from C7_complete_lottery_shape [where sh = stable_on_ties and cfg = example_config
      and io = "[1, 2, 3]" and g = example_rng, OF wf pm sh]
  obtain allPicks g' where
    "runCompleteLottery stable_on_ties example_config [1, 2, 3] example_rng = (Inr allPicks, g')"
    and "length allPicks = nat (numberOfTeams example_config * numberOfRounds example_config)"
    and "map round' allPicks = concat (map (replicate (nat (numberOfTeams example_config)))
                                         [1..numberOfRounds example_config])"
    by blast
  then show ?thesis by (simp only: r n fst_conv sum.sel simp_thms)
qed

section \<open>Failure and determinism of the weighted selection\<close>

lemma distinct_singleton:
  assumes "distinct xs" and "set xs = {x}"
  shows "xs = [x]"
proof (cases xs)
  case Nil
  with assms show ?thesis by simp
next
  case (Cons y ys)
  with assms have "y = x" and "set ys \<subseteq> {x}" and "x \<notin> set ys" by auto
  then have "ys = []" by (cases ys) auto
  with Cons \<open>y = x\<close> show ?thesis by simp
qed

lemma window_filter_interval:
  "window_filter (getValidPositionRange p n) av
     = filter (\<lambda>c. max 1 (p - 2) \<le> c \<and> c \<le> min n (p + 2)) av"
  by (simp add: window_filter_def getValidPositionRange_def MAX_MOVEMENT_def)

text \<open>
  Claim C4, as stated: \<open>weightedRandomSelection\<close> throws if and only if the candidate
  list is empty or the odds table has no entry for the original position. With the table
  lacking the entry for position 8 and position 9 as the only available one, the call
  for original position 8 returns 9: the odds entry is looked up only when there are two
  or more candidates.
\<close>

theorem C4_counterexample:
  "8 \<notin> position ` set odds_without_8
   \<and> weightedRandomSelection [9] odds_without_8 8 example_rng = (Inr 9, example_rng)"
proof
  show "8 \<notin> position ` set odds_without_8"
    by (simp add: odds_without_8_def default_odds_def)
  have "length odds_without_8 = 9" by (simp add: odds_without_8_def default_odds_def)
  then have "window_filter (getValidPositionRange 8 (int (length odds_without_8))) [9] = [9]"
    by (simp add: window_filter_interval)
  then show "weightedRandomSelection [9] odds_without_8 8 example_rng = (Inr 9, example_rng)"
    by (rule wrs_single)
qed

text \<open>
  Claim C4, amended. \<open>weightedRandomSelection\<close> throws if and only if either the list
  of available positions inside the admissible window is empty, or that list has two or
  more entries and the odds table contains no entry whose position equals the original
  position; in all other cases it returns one of the positions of that list.
\<close>

theorem C4_throws_iff:
  "((\<exists>e. fst (weightedRandomSelection av ws p g) = Inl e) \<longleftrightarrow>
      (window_filter (getValidPositionRange p (int (length ws))) av = []
       \<or> (2 \<le> length (window_filter (getValidPositionRange p (int (length ws))) av)
          \<and> p \<notin> position ` set ws)))
   \<and> ((\<forall>e. fst (weightedRandomSelection av ws p g) \<noteq> Inl e) \<longrightarrow>
        (\<exists>c. fst (weightedRandomSelection av ws p g) = Inr c
              \<and> c \<in> set (window_filter (getValidPositionRange p (int (length ws))) av)))"
proof (rule conjI)
  show "(\<exists>e. fst (weightedRandomSelection av ws p g) = Inl e) \<longleftrightarrow>
      (window_filter (getValidPositionRange p (int (length ws))) av = []
       \<or> (2 \<le> length (window_filter (getValidPositionRange p (int (length ws))) av)
          \<and> p \<notin> position ` set ws))"
    by (rule wrs_throws_iff)
  show "(\<forall>e. fst (weightedRandomSelection av ws p g) \<noteq> Inl e) \<longrightarrow>
        (\<exists>c. fst (weightedRandomSelection av ws p g) = Inr c
              \<and> c \<in> set (window_filter (getValidPositionRange p (int (length ws))) av))"
  proof
    assume ne: "\<forall>e. fst (weightedRandomSelection av ws p g) \<noteq> Inl e"
    obtain res g' where r: "weightedRandomSelection av ws p g = (res, g')"
      by (cases "weightedRandomSelection av ws p g")
    with ne obtain c where c: "res = Inr c" by (cases res) auto
    with r wrs_result_mem [of av ws p g c g']
    show "\<exists>c. fst (weightedRandomSelection av ws p g) = Inr c
              \<and> c \<in> set (window_filter (getValidPositionRange p (int (length ws))) av)"
      by simp
  qed
qed

theorem C4_witness:
  "isl (fst (weightedRandomSelection [1, 2] default_odds 5 example_rng))
   \<and> isl (fst (weightedRandomSelection [6, 7, 8, 9, 10] odds_without_8 8 example_rng))
   \<and> fst (weightedRandomSelection [6, 7, 8, 9, 10] default_odds 8 example_rng) = Inr 7
   \<and> 7 \<in> set (window_filter (getValidPositionRange 8 (int (length default_odds)))
                 [6, 7, 8, 9, 10])"
proof -
  have l: "int (length default_odds) = 10" "int (length odds_without_8) = 9"
    by (simp_all add: odds_without_8_def default_odds_def)
  have a: "window_filter (getValidPositionRange 5 (int (length default_odds))) [1, 2] = []"
    by (simp add: l window_filter_interval)
  have b: "2 \<le> length (window_filter (getValidPositionRange 8 (int (length odds_without_8)))
                         [6, 7, 8, 9, 10])"
    by (simp add: l window_filter_interval)
  have c: "8 \<notin> position ` set odds_without_8"
    by (simp add: odds_without_8_def default_odds_def)
  have d: "fst (weightedRandomSelection [6, 7, 8, 9, 10] default_odds 8 example_rng) = Inr 7"
    by code_simp
  from C4_throws_iff [of "[1, 2]" default_odds 5 example_rng] a
  have "isl (fst (weightedRandomSelection [1, 2] default_odds 5 example_rng))" by auto
  moreover from C4_throws_iff [of "[6, 7, 8, 9, 10]" odds_without_8 8 example_rng] b c
  have "isl (fst (weightedRandomSelection [6, 7, 8, 9, 10] odds_without_8 8 example_rng))"
    by auto
  moreover from C4_throws_iff [of "[6, 7, 8, 9, 10]" default_odds 8 example_rng] d
  have "7 \<in> set (window_filter (getValidPositionRange 8 (int (length default_odds)))
                  [6, 7, 8, 9, 10])"
    by auto
  ultimately show ?thesis using d by simp
qed

text \<open>
  Claim C9, as stated: whenever the intersection of the available positions with the
  admissible window is a singleton \<open>{x}\<close>, the selection returns \<open>x\<close> without consuming
  randomness. The code tests the length of the filtered list: with position 4 listed
  twice the intersection is \<open>{4}\<close>, yet a draw is consumed; with position 9 listed twice
  and no odds entry for the original position 8, the call throws.
\<close>

theorem C9_counterexample:
  "set [4, 4] \<inter> {max 1 (5 - 2)..min (int (length default_odds)) (5 + 2)} = {4}
   \<and> used example_rng = 0
   \<and> used (snd (weightedRandomSelection [4, 4] default_odds 5 example_rng)) = 1
   \<and> set [9, 9] \<inter> {max 1 (8 - 2)..min (int (length odds_without_8)) (8 + 2)} = {9}
   \<and> fst (weightedRandomSelection [9, 9] odds_without_8 8 example_rng)
       = Inl (Error ''No weighted odds found for position 8'')"
proof -
  have l: "int (length default_odds) = 10" "int (length odds_without_8) = 9"
    by (simp_all add: odds_without_8_def default_odds_def)
  have a: "set [4, 4] \<inter> {max 1 (5 - 2)..min (int (length default_odds)) (5 + 2)} = {4 :: int}"
    by (auto simp: l)
  have b: "set [9, 9] \<inter> {max 1 (8 - 2)..min (int (length odds_without_8)) (8 + 2)} = {9 :: int}"
    by (auto simp: l)
  have vp4: "2 \<le> length (window_filter (getValidPositionRange 5 (int (length default_odds))) [4, 4])"
    by (simp add: l window_filter_interval)
  have o4: "find (\<lambda>odds. position odds = 5) default_odds = Some (default_odds ! 5)"
    by (simp add: default_odds_def)
  have c: "used (snd (weightedRandomSelection [4, 4] default_odds 5 example_rng)) = 1"
    by (simp add: wrs_weighted [OF vp4 o4] example_rng_def)
  have vp9: "2 \<le> length (window_filter (getValidPositionRange 8 (int (length odds_without_8)))
                            [9, 9])"
    by (simp add: l window_filter_interval)
  have o9: "find (\<lambda>odds. position odds = 8) odds_without_8 = None"
    by (simp add: odds_without_8_def default_odds_def)
  have s8: "show_int 8 = ''8''" by code_simp
  have d: "fst (weightedRandomSelection [9, 9] odds_without_8 8 example_rng)
             = Inl (Error ''No weighted odds found for position 8'')"
    by (simp add: wrs_no_odds [OF vp9 o9] s8)
  have e: "used example_rng = 0" by (simp add: example_rng_def)
  from a e c b d show ?thesis by (intro conjI)
qed

text \<open>
  Claim C9, amended. Whenever the list of the available positions inside the admissible
  window has exactly one entry \<open>x\<close>, \<open>weightedRandomSelection\<close> returns \<open>x\<close> whatever
  the random source holds, and leaves the random source as it was: no draw is consumed.
  For a list of available positions without repetitions this is the case where the
  intersection with the window is \<open>{x}\<close>.
\<close>

theorem C9_single_candidate:
  "(window_filter (getValidPositionRange p (int (length ws))) av = [x]
      \<longrightarrow> weightedRandomSelection av ws p g = (Inr x, g))
   \<and> (distinct av \<and> set av \<inter> {max 1 (p - 2)..min (int (length ws)) (p + 2)} = {x}
      \<longrightarrow> weightedRandomSelection av ws p g = (Inr x, g))"
proof (rule conjI; rule impI)
  assume "window_filter (getValidPositionRange p (int (length ws))) av = [x]"
  then show "weightedRandomSelection av ws p g = (Inr x, g)" by (rule wrs_single)
next
  let ?vp = "window_filter (getValidPositionRange p (int (length ws))) av"
  assume a: "distinct av \<and> set av \<inter> {max 1 (p - 2)..min (int (length ws)) (p + 2)} = {x}"
  then have "distinct ?vp" by (simp add: window_filter_def)
  moreover have "set ?vp = set av \<inter> {max 1 (p - 2)..min (int (length ws)) (p + 2)}"
    by (auto simp: window_filter_interval)
  ultimately have "?vp = [x]" using a by (intro distinct_singleton) simp_all
  then show "weightedRandomSelection av ws p g = (Inr x, g)" by (rule wrs_single)
qed

theorem C9_witness:
  "weightedRandomSelection [4] default_odds 5 example_rng = (Inr 4, example_rng)
   \<and> weightedRandomSelection [1, 2, 9, 4] default_odds 5 example_rng = (Inr 4, example_rng)"
proof -
  have l: "int (length default_odds) = 10" by (simp add: default_odds_def)
  have "window_filter (getValidPositionRange 5 (int (length default_odds))) [4] = [4]"
    by (simp add: l window_filter_interval)
  moreover
  have "distinct [1, 2, 9, 4 :: int]
          \<and> set [1, 2, 9, 4] \<inter> {max 1 (5 - 2)..min (int (length default_odds)) (5 + 2)} = {4}"
    by (auto simp: l)
  ultimately show ?thesis
    using C9_single_candidate [of 5 default_odds "[4]" 4 example_rng]
      C9_single_candidate [of 5 default_odds "[1, 2, 9, 4]" 4 example_rng]
    by blast
qed

section \<open>The window of the weighted selection\<close>




section \<open>Weights, normalization and the walk\<close>

lemma js_mul_commute: "js_mul x y = js_mul y x"
  by (cases x; cases y) (simp_all add: mult.commute)

lemma candidate_weight_spec:
  "candidate_weight teamOdds p c = (c, spec_weight (percentage teamOdds) p c)"
  by (simp add: candidate_weight_def spec_weight_def Let_def js_mul_commute [of two_tenths])

lemma foldl_weights:
  "foldl (\<lambda>sum q. js_add sum (snd q)) a (map (\<lambda>c. (c, f c)) cs) = foldl js_add a (map f cs)"
  by (induction cs arbitrary: a) simp_all

lemma weights_spec:
  "map (candidate_weight teamOdds p) vp = map (\<lambda>c. (c, spec_weight (percentage teamOdds) p c)) vp"
  by (simp add: candidate_weight_spec)

lemma total_weight_spec:
  "total_weight (map (candidate_weight teamOdds p) vp) = spec_total (percentage teamOdds) p vp"
  by (simp only: weights_spec total_weight_def spec_total_def foldl_weights)

lemma normalize_spec:
  "normalize (map (candidate_weight teamOdds p) vp)
     = map (\<lambda>c. (c, js_div (spec_weight (percentage teamOdds) p c)
                      (spec_total (percentage teamOdds) p vp))) vp"
  unfolding normalize_def total_weight_spec by (simp add: weights_spec comp_def)

lemma normalize_distribution:
  "map snd (normalize (map (candidate_weight teamOdds p) vp))
     = spec_distribution (percentage teamOdds) p vp"
  by (simp add: normalize_spec spec_distribution_def comp_def)

lemma find_map_Suc:
  "find P (map Suc xs) = map_option Suc (find (\<lambda>i. P (Suc i)) xs)"
  by (induction xs) simp_all

lemma walk_cumulative:
  "selection_walk r c ps fb
     = (case find (\<lambda>i. js_le r (foldl js_add c (take (Suc i) (map snd ps)))) [0..<length ps] of
          Some i \<Rightarrow> fst (ps ! i)
        | None \<Rightarrow> fb)"
proof (induction ps arbitrary: c)
  case Nil
  then show ?case by simp
next
  case (Cons q qs)
  have "[0..<Suc (length qs)] = 0 # [Suc 0..<Suc (length qs)]"
    by (rule upt_conv_Cons) simp
  then have up: "[0..<length (q # qs)] = 0 # map Suc [0..<length qs]"
    by (simp only: length_Cons map_Suc_upt)
  show ?case
  proof (cases "js_le r (js_add c (snd q))")
    case True
    then show ?thesis unfolding up by (simp add: Let_def)
  next
    case False
    then have "selection_walk r c (q # qs) fb = selection_walk r (js_add c (snd q)) qs fb"
      by (simp add: Let_def)
    also have "\<dots> = (case find (\<lambda>i. js_le r (foldl js_add (js_add c (snd q))
                                              (take (Suc i) (map snd qs)))) [0..<length qs] of
                        Some i \<Rightarrow> fst (qs ! i) | None \<Rightarrow> fb)"
      by (rule Cons.IH)
    also have "\<dots> = (case find (\<lambda>i. js_le r (foldl js_add c (take (Suc i) (map snd (q # qs)))))
                               [0..<length (q # qs)] of
                        Some i \<Rightarrow> fst ((q # qs) ! i) | None \<Rightarrow> fb)"
      unfolding up using False
      by (simp add: find_map_Suc option.case_eq_if option.map_sel)
    finally show ?thesis .
  qed
qed

lemma wrs_weighted_select:
  assumes vp: "vp = window_filter (getValidPositionRange p (int (length ws))) av"
    and len: "2 \<le> length vp"
    and odds: "find (\<lambda>odds. position odds = p) ws = Some teamOdds"
  shows "weightedRandomSelection av ws p g
           = (Inr (spec_select (draws g (used g))
                     (map snd (normalize (map (candidate_weight teamOdds p) vp))) vp),
              g\<lparr> used := used g + 1 \<rparr>)"
proof -
  let ?np = "normalize (map (candidate_weight teamOdds p) vp)"
  have f: "map fst ?np = vp" by (rule fst_normalized)
  then have l: "length ?np = length vp" by (metis length_map)
  have nth: "fst (?np ! i) = vp ! i" if "i < length vp" for i
    using that f l by (metis nth_map)
  have "weightedRandomSelection av ws p g
          = (Inr (selection_walk (draws g (used g)) (Fin 0) ?np (vp ! 0)),
             g\<lparr> used := used g + 1 \<rparr>)"
    using wrs_weighted [OF len [unfolded vp] odds] by (simp only: vp [symmetric])
  moreover have "selection_walk (draws g (used g)) (Fin 0) ?np (vp ! 0)
               = spec_select (draws g (used g)) (map snd ?np) vp"
  proof (cases "find (\<lambda>i. js_le (draws g (used g)) (cumulative (map snd ?np) i)) [0..<length vp]")
    case None
    then show ?thesis
      by (simp add: walk_cumulative [of _ _ ?np] spec_select_def l cumulative_def)
  next
    case (Some i)
    then have "i \<in> set [0..<length vp]" by (metis find_Some_iff nth_mem)
    then have "i < length vp" by simp
    with Some nth show ?thesis
      by (simp add: walk_cumulative [of _ _ ?np] spec_select_def l cumulative_def)
  qed
  ultimately show ?thesis by simp
qed


text \<open>
  Claim C5, as stated: with two or more candidates the weights are normalized to sum to 1.
  With the default table, the candidates 4, 7 and 8 and original position 6 (percentage
  7.9), the three quotients \<open>weight / totalWeight\<close> add up to \<open>1 - 3 / 2^54\<close>, and the
  cumulative mass that the loop accumulates ends at \<open>1 - 2^(-52)\<close>: for the draw
  \<open>1 - 2^(-53)\<close> the walk completes unsatisfied and the fallback returns the first candidate.
\<close>

theorem C5_counterexample:
  "window_filter (getValidPositionRange 6 (int (length default_odds))) [4, 7, 8] = [4, 7, 8]
   \<and> map snd (normalize (map (candidate_weight (default_odds ! 4) 6) [4, 7, 8]))
       = [Fin (9007199254740991 / 18014398509481984),
          Fin (5146971002709137 / 18014398509481984),
          Fin (3860228252031853 / 18014398509481984)]
   \<and> (9007199254740991 / 18014398509481984 + 5146971002709137 / 18014398509481984
        + 3860228252031853 / 18014398509481984 :: rat) = 1 - 3 / 18014398509481984
   \<and> cumulative [Fin (9007199254740991 / 18014398509481984),
                  Fin (5146971002709137 / 18014398509481984),
                  Fin (3860228252031853 / 18014398509481984)] 2
       = Fin (4503599627370495 / 4503599627370496)
   \<and> fst (weightedRandomSelection [4, 7, 8] default_odds 6 almost_one_rng) = Inr 4"
  by code_simp

text \<open>
  Claim C5, amended. When there are two or more candidates, the team has an odds entry
  and the sum of the weights is a finite number other than 0, each candidate \<open>c\<close>
  receives the weight: base percentage times \<open>1 + 0.2 * (p - c)\<close> when \<open>c < p\<close>, times
  \<open>1 - 0.2 * (c - p)\<close> when \<open>c > p\<close>, and the base percentage itself when \<open>c = p\<close>, all
  in double arithmetic. Each weight is divided by the sum of the weights, accumulated from
  left to right; the quotients need not sum to exactly 1. The returned position is the
  first candidate, in the order of the candidate list, whose cumulative normalized weight,
  accumulated from left to right, is at least the draw, and the first candidate when the
  walk completes unsatisfied; one draw is consumed.
\<close>

theorem C5_weighted_selection:
  assumes "vp = window_filter (getValidPositionRange p (int (length ws))) av"
    and "2 \<le> length vp"
    and "find (\<lambda>odds. position odds = p) ws = Some teamOdds"
    and "spec_total (percentage teamOdds) p vp = Fin t"
    and "t \<noteq> 0"
  shows "map (candidate_weight teamOdds p) vp
           = map (\<lambda>c. (c, spec_weight (percentage teamOdds) p c)) vp
         \<and> total_weight (map (candidate_weight teamOdds p) vp) = Fin t
         \<and> normalize (map (candidate_weight teamOdds p) vp)
             = map (\<lambda>c. (c, js_div (spec_weight (percentage teamOdds) p c) (Fin t))) vp
         \<and> weightedRandomSelection av ws p g
             = (Inr (spec_select (draws g (used g))
                       (spec_distribution (percentage teamOdds) p vp) vp),
                g\<lparr> used := used g + 1 \<rparr>)"
proof (intro conjI)
  show "map (candidate_weight teamOdds p) vp
           = map (\<lambda>c. (c, spec_weight (percentage teamOdds) p c)) vp"
    by (rule weights_spec)
  show "total_weight (map (candidate_weight teamOdds p) vp) = Fin t"
    using assms(4) by (simp only: total_weight_spec)
  show "normalize (map (candidate_weight teamOdds p) vp)
             = map (\<lambda>c. (c, js_div (spec_weight (percentage teamOdds) p c) (Fin t))) vp"
    using assms(4) by (simp only: normalize_spec)
  show "weightedRandomSelection av ws p g
             = (Inr (spec_select (draws g (used g))
                       (spec_distribution (percentage teamOdds) p vp) vp),
                g\<lparr> used := used g + 1 \<rparr>)"
    using wrs_weighted_select [OF assms(1,2,3), of g] by (simp only: normalize_distribution)
qed

theorem C5_witness:
  "map (candidate_weight (default_odds ! 3) 7) [5, 8, 9]
     = [(5, Fin (4137682157646643 / 281474976710656)),
        (8, Fin (4728779608739021 / 562949953421312)),
        (9, Fin (7093169413108531 / 1125899906842624))]
   \<and> total_weight (map (candidate_weight (default_odds ! 3) 7) [5, 8, 9])
       = Fin (8275364315293287 / 281474976710656)
   \<and> spec_distribution (round_double (105 / 10)) 7 [5, 8, 9]
       = [Fin (9007199254740991 / 18014398509481984),
          Fin (2573485501354569 / 9007199254740992),
          Fin (7720456504063707 / 36028797018963968)]
   \<and> weightedRandomSelection [5, 8, 9] default_odds 7 example_rng
       = (Inr 8, example_rng\<lparr> used := 1 \<rparr>)"
proof -
  let ?o = "default_odds ! 3"
  have o: "?o = \<lparr> position = 7, percentage = round_double (105 / 10) \<rparr>"
    by (simp add: default_odds_def)
  have pc: "percentage ?o = round_double (105 / 10)" by (simp add: o)
  have vp: "[5, 8, 9]
              = window_filter (getValidPositionRange 7 (int (length default_odds))) [5, 8, 9]"
    by (simp add: default_odds_def window_filter_interval)
  have len: "2 \<le> length [5, 8, 9 :: int]" by simp
  have odds: "find (\<lambda>odds. position odds = 7) default_odds = Some ?o"
    by (simp add: default_odds_def)
  have tot: "spec_total (percentage ?o) 7 [5, 8, 9] = Fin (8275364315293287 / 281474976710656)"
    unfolding pc by code_simp
  have nz: "(8275364315293287 / 281474976710656 :: rat) \<noteq> 0" by simp
  have w: "map (\<lambda>c. (c, spec_weight (round_double (105 / 10)) 7 c)) [5, 8, 9]
             = [(5, Fin (4137682157646643 / 281474976710656)),
                (8, Fin (4728779608739021 / 562949953421312)),
                (9, Fin (7093169413108531 / 1125899906842624))]"
    by code_simp
  have d: "spec_distribution (round_double (105 / 10)) 7 [5, 8, 9]
       = [Fin (9007199254740991 / 18014398509481984),
          Fin (2573485501354569 / 9007199254740992),
          Fin (7720456504063707 / 36028797018963968)]"
    by code_simp
  have s: "spec_select (1 / 2) [Fin (9007199254740991 / 18014398509481984),
                                Fin (2573485501354569 / 9007199254740992),
                                Fin (7720456504063707 / 36028797018963968)] [5, 8, 9] = 8"
    by code_simp
  have g: "draws example_rng (used example_rng) = 1 / 2"
    "example_rng\<lparr> used := used example_rng + 1 \<rparr> = example_rng\<lparr> used := 1 \<rparr>"
    by (simp_all add: example_rng_def)
  note c = C5_weighted_selection [OF vp len odds tot nz, of example_rng]
  from c have c1: "map (candidate_weight ?o 7) [5, 8, 9]
                     = map (\<lambda>c. (c, spec_weight (percentage ?o) 7 c)) [5, 8, 9]"
    by blast
  from c have c2: "total_weight (map (candidate_weight ?o 7) [5, 8, 9])
                     = Fin (8275364315293287 / 281474976710656)"
    by blast
  from c have c4: "weightedRandomSelection [5, 8, 9] default_odds 7 example_rng
           = (Inr (spec_select (draws example_rng (used example_rng))
                     (spec_distribution (percentage ?o) 7 [5, 8, 9]) [5, 8, 9]),
              example_rng\<lparr> used := used example_rng + 1 \<rparr>)"
    by blast
  have r1: "map (candidate_weight ?o 7) [5, 8, 9]
     = [(5, Fin (4137682157646643 / 281474976710656)),
        (8, Fin (4728779608739021 / 562949953421312)),
        (9, Fin (7093169413108531 / 1125899906842624))]"
    using c1 w by (simp only: pc)
  have r4: "weightedRandomSelection [5, 8, 9] default_odds 7 example_rng
       = (Inr 8, example_rng\<lparr> used := 1 \<rparr>)"
    using c4 by (simp only: pc d g s)
  from r1 c2 d r4 show ?thesis by (intro conjI)
qed

end
